theory Spec2Isabelle
  imports Complex_Main "HOL-Library.AList"
begin

section \<open>The genetic optimiser of the retirement simulator (genetic.py)\<close>

text \<open>
  The development embeds \<^verbatim>\<open>Algorithm\<close> of \<^verbatim>\<open>genetic.py\<close>. Python floats are read
  as real numbers. The simulator, the random generator and the \<^verbatim>\<open>Model\<close> object are
  external: the simulator is a function of the number of the call and of its two
  arguments, the random generator is a sequence of natural numbers of which every
  draw consumes one, and the operations of \<^verbatim>\<open>Model\<close> are parameters. Printing and
  \<^verbatim>\<open>log_to_optimize_page\<close> change nothing the algorithm reads and are left out.
\<close>

subsection \<open>Module constants\<close>

definition SUCCESS_THRESH :: real where
  "SUCCESS_THRESH = 5 / 10"

definition OFFSPRING_QTY :: nat where
  "OFFSPRING_QTY = 10"

definition TARGET_SUCCESS_RATE :: real where
  "TARGET_SUCCESS_RATE = 95 / 100"

definition INITIAL_MONTE_RUNS :: int where
  "INITIAL_MONTE_RUNS = 100"

definition MAX_MONTE_RUNS :: int where
  "MAX_MONTE_RUNS = 5000"

definition ITER_LIMIT :: nat where
  "ITER_LIMIT = 5"

definition SEED :: bool where
  "SEED = True"

subsection \<open>Data\<close>

datatype error = KeyError | ValueError | IndexError | AttributeError | Exception

text \<open>
  A dict is an association list in insertion order. A mutable assignment maps the
  mutable parameters to values, \<^verbatim>\<open>mutable_param_ranges\<close> maps them to their candidate
  lists, and the tally \<^verbatim>\<open>param_cnt\<close> maps them to lists of counters.
\<close>

type_synonym 'v assignment = "(string \<times> 'v) list"
type_synonym 'v ranges = "(string \<times> 'v list) list"
type_synonym tally = "(string \<times> int list) list"

text \<open>
  Of a full assignment the algorithm reads the scalar parameters (which it
  overwrites with the mutable ones) and, under the keys \<^verbatim>\<open>user_jobs\<close> and
  \<^verbatim>\<open>partner_jobs\<close>, the \<^verbatim>\<open>last_date\<close> of every income.
\<close>

record 'v full_params =
  scalars :: "'v assignment"
  user_jobs :: "real list"
  partner_jobs :: "real list"

text \<open>The draws of a simulation are opaque to the algorithm: a number stands for them.\<close>

type_synonym returns = nat

record override =
  ov_monte_carlo_runs :: int
  ov_returns :: "returns option"

text \<open>The simulator returns an empty dict when it was told to quit.\<close>

datatype sim_results = Empty_dict | Results (s_rate: real) (sim_returns: returns)

record 'v state =
  store :: "nat \<Rightarrow> 'v full_params"
  next_ref :: nat
  mutable_param_ranges :: "'v ranges"
  prev_used_params :: "'v assignment list"
  self_returns :: "returns option"
  reset_success :: bool
  param_cnt :: tally
  tally_file :: "tally option"
  MONTE_CARLO_RUNS :: int
  model_param_vals :: "'v full_params"
  persisted :: "'v full_params"
  rng_pos :: nat
  oracle_calls :: nat

text \<open>
  \<^verbatim>\<open>store\<close> holds the dict objects bound to \<^verbatim>\<open>full_param_vals\<close>, which
  \<^verbatim>\<open>_make_child\<close> updates in place and \<^verbatim>\<open>main\<close> passes on to its recursive call;
  \<^verbatim>\<open>tally_file\<close> is the content of \<^verbatim>\<open>param_success.json\<close>, \<^verbatim>\<open>None\<close> when it does
  not parse; \<^verbatim>\<open>MONTE_CARLO_RUNS\<close> is the global of the module \<^verbatim>\<open>simulator\<close>;
  \<^verbatim>\<open>persisted\<close> is what \<^verbatim>\<open>load_params()[0]\<close> reads.
\<close>

record 'v env =
  param_details :: "(string \<times> 'v list option) list"
  simulator_main :: "nat \<Rightarrow> 'v full_params \<Rightarrow> override \<Rightarrow> sim_results"
  rng :: "nat \<Rightarrow> nat"
  save_from_genetic ::
    "'v assignment \<Rightarrow> bool \<Rightarrow> 'v full_params \<times> 'v full_params
       \<Rightarrow> 'v full_params \<times> 'v full_params"

text \<open>
  \<^verbatim>\<open>param_details\<close> gives the evaluated \<^verbatim>\<open>range\<close> of a parameter that has one.
  \<^verbatim>\<open>save_from_genetic\<close> is a method of \<^verbatim>\<open>Model\<close>: from the mutable assignment and
  the flag \<^verbatim>\<open>reduce_dates\<close> it changes \<^verbatim>\<open>model.param_vals\<close> and the persisted
  parameters, the two components of its argument and result.
\<close>

subsection \<open>Mutation\<close>

text \<open>\<^verbatim>\<open>list.index\<close>: the first position of a value, \<^verbatim>\<open>ValueError\<close> when there is none.\<close>

fun index_of :: "'a list \<Rightarrow> 'a \<Rightarrow> nat option" where
  "index_of [] v = None"
| "index_of (x # xs) v = (if x = v then Some 0 else map_option Suc (index_of xs v))"

text \<open>
  \<^verbatim>\<open>np.random.choice(param_range)\<close>: some element of a non-empty list, chosen by
  the draw; \<^verbatim>\<open>ValueError\<close> on an empty one.
\<close>

definition random_choice :: "nat \<Rightarrow> 'a list \<Rightarrow> error + 'a" where
  "random_choice draw xs =
     (if xs = [] then Inl ValueError else Inr (xs ! (draw mod length xs)))"

text \<open>
  \<^verbatim>\<open>_gaussian_int\<close> chooses among the integers
  \<^verbatim>\<open>center - max_deviation .. center + max_deviation\<close>, each with a positive
  probability; the draw decides which. For a deviation below 1 the scale of the
  distribution is 0 or the integers are none, the probabilities are not numbers,
  and \<^verbatim>\<open>np.random.choice\<close> raises.
\<close>

definition gaussian_int :: "nat \<Rightarrow> int \<Rightarrow> int \<Rightarrow> error + int" where
  "gaussian_int draw center max_deviation =
     (if max_deviation < 1 then Inl ValueError
      else Inr (center - max_deviation + int draw mod (2 * max_deviation + 1)))"

fun random_mutate :: "(nat \<Rightarrow> nat) \<Rightarrow> nat \<Rightarrow> 'v ranges \<Rightarrow> error + 'v assignment" where
  "random_mutate g pos [] = Inr []"
| "random_mutate g pos ((param, param_range) # rest) =
     (case random_choice (g pos) param_range of
        Inl e \<Rightarrow> Inl e
      | Inr v \<Rightarrow>
          (case random_mutate g (Suc pos) rest of
             Inl e \<Rightarrow> Inl e
           | Inr res \<Rightarrow> Inr ((param, v) # res)))"

text \<open>The loop of \<^verbatim>\<open>_step_mutate\<close> that fills \<^verbatim>\<open>res\<close>, one draw for each parameter.\<close>

fun step_sample ::
  "(nat \<Rightarrow> nat) \<Rightarrow> nat \<Rightarrow> 'v ranges \<Rightarrow> 'v assignment \<Rightarrow> int \<Rightarrow> error + 'v assignment" where
  "step_sample g pos [] mutable_param_values max_step = Inr []"
| "step_sample g pos ((param, param_range) # rest) mutable_param_values max_step =
     (case map_of mutable_param_values param of
        None \<Rightarrow> Inl KeyError
      | Some v \<Rightarrow>
          (case index_of param_range v of
             None \<Rightarrow> Inl ValueError
           | Some old_idx \<Rightarrow>
               (case gaussian_int (g pos) (int old_idx) max_step of
                  Inl e \<Rightarrow> Inl e
                | Inr gi \<Rightarrow>
                    (let new_idx = min (int (length param_range) - 1) (max 0 gi) in
                     case step_sample g (Suc pos) rest mutable_param_values max_step of
                       Inl e \<Rightarrow> Inl e
                     | Inr res \<Rightarrow> Inr ((param, param_range ! nat new_idx) # res)))))"

text \<open>
  \<^verbatim>\<open>_step_mutate\<close> samples again, by a recursive call, while the sample is in
  \<^verbatim>\<open>prev_used_params\<close>. The first argument bounds the depth of the recursion:
  \<^verbatim>\<open>None\<close> says that the call has not returned within it. The result carries the
  position of the next unused draw.
\<close>

fun step_mutate ::
  "nat \<Rightarrow> (nat \<Rightarrow> nat) \<Rightarrow> nat \<Rightarrow> 'v ranges \<Rightarrow> 'v assignment list \<Rightarrow> 'v assignment \<Rightarrow> int
     \<Rightarrow> (error + 'v assignment \<times> nat) option" where
  "step_mutate 0 g pos rs prev mutable_param_values max_step = None"
| "step_mutate (Suc n) g pos rs prev mutable_param_values max_step =
     (case step_sample g pos rs mutable_param_values max_step of
        Inl e \<Rightarrow> Some (Inl e)
      | Inr res \<Rightarrow>
          if res \<in> set prev
          then step_mutate n g (pos + length rs) rs prev mutable_param_values max_step
          else Some (Inr (res, pos + length rs)))"

subsection \<open>The tally\<close>

text \<open>The loop of \<^verbatim>\<open>_update_param_count\<close> that adds one to a counter of every parameter.\<close>

fun count_accept :: "'v ranges \<Rightarrow> 'v assignment \<Rightarrow> tally \<Rightarrow> error + tally" where
  "count_accept [] param_vals cnt = Inr cnt"
| "count_accept ((param, param_range) # rest) param_vals cnt =
     (case map_of cnt param of
        None \<Rightarrow> Inl KeyError
      | Some cs \<Rightarrow>
          (case map_of param_vals param of
             None \<Rightarrow> Inl KeyError
           | Some v \<Rightarrow>
               (case index_of param_range v of
                  None \<Rightarrow> Inl ValueError
                | Some i \<Rightarrow>
                    if i < length cs
                    then count_accept rest param_vals (AList.update param (cs[i := cs ! i + 1]) cnt)
                    else Inl IndexError)))"

definition zero_tally :: "'v ranges \<Rightarrow> tally" where
  "zero_tally rs = map (\<lambda>(param, param_range). (param, replicate (length param_range) 0)) rs"

text \<open>
  \<^verbatim>\<open>_update_param_count\<close>: a file that does not parse gives the empty tally and sets
  the reset flag; a set reset flag replaces the tally by zeros; then every parameter
  is counted and the file is written.
\<close>

definition update_param_count :: "'v assignment \<Rightarrow> 'v state \<Rightarrow> error + 'v state" where
  "update_param_count param_vals st =
     (let loaded = (case tally_file st of Some c \<Rightarrow> (c, reset_success st) | None \<Rightarrow> ([], True));
          cnt = (if snd loaded then zero_tally (mutable_param_ranges st) else fst loaded)
      in case count_accept (mutable_param_ranges st) param_vals cnt of
           Inl e \<Rightarrow> Inl e
         | Inr cnt' \<Rightarrow> Inr (st\<lparr>reset_success := False, param_cnt := cnt', tally_file := Some cnt'\<rparr>))"

subsection \<open>Evaluating a child\<close>

text \<open>Python's \<^verbatim>\<open>int\<close> of a float drops the fraction, towards zero.\<close>

definition py_int :: "real \<Rightarrow> int" where
  "py_int x = (if 0 \<le> x then \<lfloor>x\<rfloor> else \<lceil>x\<rceil>)"

text \<open>The number of runs that \<^verbatim>\<open>_make_child\<close> puts into \<^verbatim>\<open>override_dict\<close>.\<close>

definition monte_carlo_runs :: "real \<Rightarrow> int" where
  "monte_carlo_runs success_rate =
     py_int (max (of_int INITIAL_MONTE_RUNS)
               (min (of_int MAX_MONTE_RUNS)
                  (of_int MAX_MONTE_RUNS * (success_rate + (1 - TARGET_SUCCESS_RATE)) ^ 70)))"

text \<open>
  A computation either has not returned within its bound (\<open>None\<close>), or has raised,
  or has returned a value.
\<close>

type_synonym 'a run = "(error + 'a) option"

definition bind_run :: "'a run \<Rightarrow> ('a \<Rightarrow> 'b run) \<Rightarrow> 'b run" where
  "bind_run m f = (case m of None \<Rightarrow> None | Some (Inl e) \<Rightarrow> Some (Inl e) | Some (Inr x) \<Rightarrow> f x)"

definition raise_or :: "error + 'a \<Rightarrow> 'a run" where
  "raise_or r = Some r"

text \<open>\<^verbatim>\<open>dict.update\<close>: every key of the second dict is set in the first.\<close>

definition dict_update :: "('k \<times> 'a) list \<Rightarrow> ('k \<times> 'a) list \<Rightarrow> ('k \<times> 'a) list" where
  "dict_update d other = foldl (\<lambda>acc (k, v). AList.update k v acc) d other"

text \<open>The first \<^verbatim>\<open>if\<close> chain of \<^verbatim>\<open>_make_child\<close>, which chooses the child.\<close>

definition mutate_child ::
  "nat \<Rightarrow> 'v env \<Rightarrow> string \<Rightarrow> 'v assignment \<Rightarrow> int \<Rightarrow> 'v state
     \<Rightarrow> ('v assignment \<times> 'v state) run" where
  "mutate_child n env mutate parent_mute_param_vals max_step st =
     (if mutate = ''step'' then
        bind_run (step_mutate n (rng env) (rng_pos st) (mutable_param_ranges st)
                    (prev_used_params st) parent_mute_param_vals max_step)
          (\<lambda>(child, pos).
             Some (Inr (child,
               st\<lparr>rng_pos := pos, prev_used_params := prev_used_params st @ [child]\<rparr>)))
      else if mutate = ''random'' then
        bind_run (raise_or (random_mutate (rng env) (rng_pos st) (mutable_param_ranges st)))
          (\<lambda>child.
             Some (Inr (child,
               st\<lparr>rng_pos := rng_pos st + length (mutable_param_ranges st),
                  prev_used_params := [child]\<rparr>)))
      else if mutate = ''identical'' then Some (Inr (parent_mute_param_vals, st))
      else Some (Inl Exception))"

text \<open>
  \<^verbatim>\<open>override_dict\<close>: the number of runs, and for every child but the first of a
  generation the draws that the last simulation returned.
\<close>

definition override_dict :: "real \<Rightarrow> nat \<Rightarrow> 'v state \<Rightarrow> error + override" where
  "override_dict success_rate idx st =
     (if idx \<noteq> 0
      then (case self_returns st of
              None \<Rightarrow> Inl AttributeError
            | Some r \<Rightarrow>
                Inr \<lparr>ov_monte_carlo_runs = monte_carlo_runs success_rate, ov_returns = Some r\<rparr>)
      else Inr \<lparr>ov_monte_carlo_runs = monte_carlo_runs success_rate, ov_returns = None\<rparr>)"

text \<open>
  \<^verbatim>\<open>_make_child\<close>. The full assignment is the object at \<open>full_param_vals\<close> in the
  store. The result \<open>None\<close> is the pair \<^verbatim>\<open>(None, None)\<close>, and \<open>Some (r, child)\<close> the
  pair of the success rate and the child. A random mutation does not read
  \<^verbatim>\<open>parent_mute_param_vals\<close>, which its callers leave out; they pass the empty dict
  here.
\<close>

definition make_child ::
  "nat \<Rightarrow> 'v env \<Rightarrow> nat \<Rightarrow> real \<Rightarrow> string \<Rightarrow> 'v assignment \<Rightarrow> int \<Rightarrow> nat \<Rightarrow> 'v state
     \<Rightarrow> ((real \<times> 'v assignment) option \<times> 'v state) run" where
  "make_child n env full_param_vals success_rate mutate parent_mute_param_vals max_step idx st =
     bind_run (mutate_child n env mutate parent_mute_param_vals max_step st)
       (\<lambda>(child_mute_param_vals, st1).
          let full = store st1 full_param_vals;
              full' = full\<lparr>scalars := dict_update (scalars full) child_mute_param_vals\<rparr>;
              st2 = st1\<lparr>store := (store st1)(full_param_vals := full')\<rparr>
          in bind_run (raise_or (override_dict success_rate idx st2))
               (\<lambda>ov.
                  let st3 = st2\<lparr>oracle_calls := Suc (oracle_calls st2)\<rparr>
                  in case simulator_main env (oracle_calls st2) full' ov of
                       Empty_dict \<Rightarrow> Some (Inr (None, st3))
                     | Results r rets \<Rightarrow>
                         Some (Inr (Some (r, child_mute_param_vals),
                                    st3\<lparr>self_returns := Some rets\<rparr>))))"

subsection \<open>Being overtaken\<close>

datatype usr = User | Partner

definition jobs_of :: "usr \<Rightarrow> 'v full_params \<Rightarrow> real list" where
  "jobs_of u fp = (case u of User \<Rightarrow> user_jobs fp | Partner \<Rightarrow> partner_jobs fp)"

text \<open>
  The inner loop of \<^verbatim>\<open>_check_if_beaten\<close> over the incomes of one person, from
  position \<open>i\<close> on. \<open>restart\<close> is the call \<^verbatim>\<open>self.main()\<close>; when it returns, the
  loop goes on. The persisted parameters are loaded for every income.
\<close>

fun check_jobs ::
  "('v state \<Rightarrow> 'v state run) \<Rightarrow> usr \<Rightarrow> nat \<Rightarrow> real list \<Rightarrow> 'v state \<Rightarrow> 'v state run" where
  "check_jobs restart u i [] st = Some (Inr st)"
| "check_jobs restart u i (last_date # incomes) st =
     (if i < length (jobs_of u (persisted st))
      then if last_date > jobs_of u (persisted st) ! i
           then bind_run (restart st) (\<lambda>st'. check_jobs restart u (Suc i) incomes st')
           else check_jobs restart u (Suc i) incomes st
      else Some (Inl IndexError))"

definition check_if_beaten ::
  "('v state \<Rightarrow> 'v state run) \<Rightarrow> nat \<Rightarrow> 'v state \<Rightarrow> 'v state run" where
  "check_if_beaten restart full_param_vals st =
     bind_run (check_jobs restart User 0 (user_jobs (store st full_param_vals)) st)
       (\<lambda>st1. check_jobs restart Partner 0 (partner_jobs (store st1 full_param_vals)) st1)"

subsection \<open>The loop of main\<close>

text \<open>The local variables of \<^verbatim>\<open>main\<close>; \<open>full_param_vals\<close> is a reference into the store.\<close>

record 'v loop_vars =
  full_param_vals :: nat
  parent_mute_param_vals :: "'v assignment"
  success_rate :: real
  parent_is_best_qty :: nat

text \<open>A part of the body of \<^verbatim>\<open>main\<close> either makes \<^verbatim>\<open>main\<close> return or goes on.\<close>

datatype 'a flow = Return_None | Next 'a

text \<open>
  The loop that makes the children. \<^verbatim>\<open>not children[-1][0]\<close> holds for the rate
  \<^verbatim>\<open>None\<close> and for the rate \<^verbatim>\<open>0.0\<close>.
\<close>

fun make_children ::
  "nat \<Rightarrow> 'v env \<Rightarrow> 'v loop_vars \<Rightarrow> nat list \<Rightarrow> (real \<times> 'v assignment) list \<Rightarrow> 'v state
     \<Rightarrow> ((real \<times> 'v assignment) list flow \<times> 'v state) run" where
  "make_children n env lv [] children st = Some (Inr (Next children, st))"
| "make_children n env lv (idx # idxs) children st =
     bind_run (make_child n env (full_param_vals lv) (success_rate lv) ''step''
                 (parent_mute_param_vals lv) (max 1 (int (parent_is_best_qty lv))) idx st)
       (\<lambda>(child, st').
          case child of
            None \<Rightarrow> Some (Inr (Return_None, st'))
          | Some (r, ps) \<Rightarrow>
              if r = 0 then Some (Inr (Return_None, st'))
              else make_children n env lv idxs (children @ [(r, ps)]) st')"

text \<open>
  The loop that mutates at random until a child reaches \<^verbatim>\<open>SUCCESS_THRESH\<close>, as it
  stands in the improvement loop: it tests \<^verbatim>\<open>not success_rate\<close>.
\<close>

fun random_restart ::
  "nat \<Rightarrow> 'v env \<Rightarrow> 'v loop_vars \<Rightarrow> 'v state \<Rightarrow> ('v loop_vars flow \<times> 'v state) run" where
  "random_restart 0 env lv st = None"
| "random_restart (Suc n) env lv st =
     (if success_rate lv < SUCCESS_THRESH
      then bind_run (make_child n env (full_param_vals lv) (success_rate lv) ''random'' [] 1 0 st)
             (\<lambda>(child, st').
                case child of
                  None \<Rightarrow> Some (Inr (Return_None, st'))
                | Some (r, ps) \<Rightarrow>
                    if r = 0 then Some (Inr (Return_None, st'))
                    else random_restart n env
                           (lv\<lparr>success_rate := r, parent_mute_param_vals := ps\<rparr>) st')
      else Some (Inr (Next lv, st)))"

text \<open>The same loop before the improvement loop: it tests the type of the rate.\<close>

fun random_seed ::
  "nat \<Rightarrow> 'v env \<Rightarrow> 'v loop_vars \<Rightarrow> 'v state \<Rightarrow> ('v loop_vars flow \<times> 'v state) run" where
  "random_seed 0 env lv st = None"
| "random_seed (Suc n) env lv st =
     (if success_rate lv < SUCCESS_THRESH
      then bind_run (make_child n env (full_param_vals lv) (success_rate lv) ''random'' [] 1 0 st)
             (\<lambda>(child, st').
                case child of
                  None \<Rightarrow> Some (Inr (Return_None, st'))
                | Some (r, ps) \<Rightarrow>
                    random_seed n env (lv\<lparr>success_rate := r, parent_mute_param_vals := ps\<rparr>) st')
      else Some (Inr (Next lv, st)))"

text \<open>
  Sorting the children by rate, highest first, and choosing between the parent and
  the best child. Python's sort is stable, also with \<^verbatim>\<open>reverse=True\<close>.
\<close>

definition select_parent ::
  "nat \<Rightarrow> 'v env \<Rightarrow> 'v loop_vars \<Rightarrow> (real \<times> 'v assignment) list \<Rightarrow> 'v state
     \<Rightarrow> ('v loop_vars flow \<times> 'v state) run" where
  "select_parent n env lv children st =
     (case sort_key (\<lambda>child. - fst child) children of
        [] \<Rightarrow> Some (Inl IndexError)
      | best # others \<Rightarrow>
          if success_rate lv \<ge> fst best
          then (let lv1 = lv\<lparr>parent_is_best_qty := parent_is_best_qty lv + 1\<rparr>
                in if parent_is_best_qty lv1 \<ge> ITER_LIMIT
                   then random_restart n env (lv1\<lparr>parent_is_best_qty := 0, success_rate := 0\<rparr>) st
                   else Some (Inr (Next lv1, st)))
          else (let lv1 = lv\<lparr>parent_is_best_qty := 0, success_rate := fst best,
                             parent_mute_param_vals := snd best\<rparr>
                in bind_run (raise_or (update_param_count (parent_mute_param_vals lv1) st))
                     (\<lambda>st'. Some (Inr (Next lv1, st')))))"

text \<open>
  What follows a confirmed rate: the check, the saving of the parameters and the
  recursive call of \<^verbatim>\<open>main\<close>, after whose return the loop goes on. \<open>main_rec\<close> is
  \<^verbatim>\<open>self.main\<close>; its argument \<open>None\<close> is the default \<^verbatim>\<open>(False, [])\<close> of
  \<^verbatim>\<open>next_loop\<close> and \<open>Some ref\<close> is \<^verbatim>\<open>(True, full_param_vals)\<close>.
\<close>

definition advance ::
  "(nat option \<Rightarrow> 'v state \<Rightarrow> 'v state run) \<Rightarrow> 'v env \<Rightarrow> nat option \<Rightarrow> 'v loop_vars \<Rightarrow> 'v state
     \<Rightarrow> ('v loop_vars flow \<times> 'v state) run" where
  "advance main_rec env next_loop lv st =
     bind_run (check_if_beaten (main_rec None) (full_param_vals lv) st)
       (\<lambda>st1.
          let full = store st1 (full_param_vals lv);
              full' = full\<lparr>scalars := dict_update (scalars full) (parent_mute_param_vals lv)\<rparr>;
              st2 = st1\<lparr>store := (store st1)(full_param_vals lv := full')\<rparr>;
              saved = save_from_genetic env (parent_mute_param_vals lv) (next_loop \<noteq> None)
                        (model_param_vals st2, persisted st2);
              st3 = st2\<lparr>model_param_vals := fst saved, persisted := snd saved\<rparr>;
              ref = next_ref st3;
              st4 = st3\<lparr>store := (store st3)(ref := model_param_vals st3), next_ref := Suc ref\<rparr>;
              lv1 = lv\<lparr>full_param_vals := ref\<rparr>
          in bind_run (main_rec (Some ref) st4) (\<lambda>st5. Some (Inr (Next lv1, st5))))"

text \<open>What follows the simulation of the parent with \<^verbatim>\<open>MAX_MONTE_RUNS\<close> runs.\<close>

definition after_confirm ::
  "(nat option \<Rightarrow> 'v state \<Rightarrow> 'v state run) \<Rightarrow> 'v env \<Rightarrow> nat option \<Rightarrow> 'v loop_vars \<Rightarrow> int
     \<Rightarrow> (real \<times> 'v assignment) option \<times> 'v state \<Rightarrow> ('v loop_vars flow \<times> 'v state) run" where
  "after_confirm main_rec env next_loop lv current_monte_carlo_runs res =
     (case fst res of
        None \<Rightarrow> Some (Inr (Return_None, snd res))
      | Some (r, ps) \<Rightarrow>
          if r = 0 then Some (Inr (Return_None, snd res))
          else (let st = (snd res)\<lparr>MONTE_CARLO_RUNS := current_monte_carlo_runs\<rparr>;
                    lv1 = lv\<lparr>success_rate := r\<rparr>
                in if r < TARGET_SUCCESS_RATE then Some (Inr (Next lv1, st))
                   else advance main_rec env next_loop lv1 st))"

definition confirm ::
  "(nat option \<Rightarrow> 'v state \<Rightarrow> 'v state run) \<Rightarrow> nat \<Rightarrow> 'v env \<Rightarrow> nat option \<Rightarrow> 'v loop_vars
     \<Rightarrow> 'v state \<Rightarrow> ('v loop_vars flow \<times> 'v state) run" where
  "confirm main_rec n env next_loop lv st =
     (if success_rate lv \<ge> TARGET_SUCCESS_RATE * (1005 / 1000)
      then bind_run (make_child n env (full_param_vals lv) (success_rate lv) ''identical''
                       (parent_mute_param_vals lv) 1 0 (st\<lparr>MONTE_CARLO_RUNS := MAX_MONTE_RUNS\<rparr>))
             (after_confirm main_rec env next_loop lv (MONTE_CARLO_RUNS st))
      else Some (Inr (Next lv, st)))"

text \<open>
  One pass through the body of \<^verbatim>\<open>while True\<close>: first the check, the children and
  the choice of the parent, then the confirmation.
\<close>

definition explore ::
  "(nat option \<Rightarrow> 'v state \<Rightarrow> 'v state run) \<Rightarrow> nat \<Rightarrow> 'v env \<Rightarrow> 'v loop_vars \<Rightarrow> 'v state
     \<Rightarrow> ('v loop_vars flow \<times> 'v state) run" where
  "explore main_rec n env lv st =
     bind_run (check_if_beaten (main_rec None) (full_param_vals lv) st)
       (\<lambda>st1.
          bind_run (make_children n env lv [0..<OFFSPRING_QTY] [] st1)
            (\<lambda>(made, st2).
               case made of
                 Return_None \<Rightarrow> Some (Inr (Return_None, st2))
               | Next children \<Rightarrow> select_parent n env lv children st2))"

definition generation ::
  "(nat option \<Rightarrow> 'v state \<Rightarrow> 'v state run) \<Rightarrow> nat \<Rightarrow> 'v env \<Rightarrow> nat option \<Rightarrow> 'v loop_vars
     \<Rightarrow> 'v state \<Rightarrow> ('v loop_vars flow \<times> 'v state) run" where
  "generation main_rec n env next_loop lv st =
     bind_run (explore main_rec n env lv st)
       (\<lambda>(chosen, st3).
          case chosen of
            Return_None \<Rightarrow> Some (Inr (Return_None, st3))
          | Next lv1 \<Rightarrow> confirm main_rec n env next_loop lv1 st3)"

fun improvement_loop ::
  "(nat option \<Rightarrow> 'v state \<Rightarrow> 'v state run) \<Rightarrow> nat \<Rightarrow> 'v env \<Rightarrow> nat option \<Rightarrow> 'v loop_vars
     \<Rightarrow> 'v state \<Rightarrow> 'v state run" where
  "improvement_loop main_rec 0 env next_loop lv st = None"
| "improvement_loop main_rec (Suc n) env next_loop lv st =
     bind_run (generation main_rec n env next_loop lv st)
       (\<lambda>(fl, st').
          case fl of
            Return_None \<Rightarrow> Some (Inr st')
          | Next lv' \<Rightarrow> improvement_loop main_rec n env next_loop lv' st')"

subsection \<open>main\<close>

text \<open>The mutable parameters: those whose details have a range.\<close>

definition ranges_of :: "(string \<times> 'v list option) list \<Rightarrow> 'v ranges" where
  "ranges_of details = concat (map (\<lambda>(param, obj). case obj of None \<Rightarrow> [] | Some r \<Rightarrow> [(param, r)]) details)"

fun mute_param_vals_of ::
  "(string \<times> 'v list option) list \<Rightarrow> 'v assignment \<Rightarrow> error + 'v assignment" where
  "mute_param_vals_of details [] = Inr []"
| "mute_param_vals_of details ((param, val) # rest) =
     (case map_of details param of
        None \<Rightarrow> Inl KeyError
      | Some obj \<Rightarrow>
          (case mute_param_vals_of details rest of
             Inl e \<Rightarrow> Inl e
           | Inr res \<Rightarrow> Inr (if obj \<noteq> None then (param, val) # res else res)))"

text \<open>
  The body of \<^verbatim>\<open>main\<close> up to the improvement loop, and the loop. The first argument
  is \<^verbatim>\<open>self.main\<close> for the recursive calls.
\<close>

definition main_body ::
  "(nat option \<Rightarrow> 'v state \<Rightarrow> 'v state run) \<Rightarrow> nat \<Rightarrow> 'v env \<Rightarrow> nat option \<Rightarrow> 'v state
     \<Rightarrow> 'v state run" where
  "main_body main_rec n env next_loop st =
     (let st1 = st\<lparr>mutable_param_ranges := ranges_of (param_details env)\<rparr>
      in bind_run (raise_or (mute_param_vals_of (param_details env) (scalars (model_param_vals st1))))
           (\<lambda>mute_param_vals.
              let ref = next_ref st1;
                  st2 = st1\<lparr>store := (store st1)(ref := model_param_vals st1), next_ref := Suc ref,
                           prev_used_params := []\<rparr>;
                  lv = \<lparr>full_param_vals = ref, parent_mute_param_vals = mute_param_vals,
                        success_rate = 0, parent_is_best_qty = 0\<rparr>
              in bind_run
                   (case next_loop of
                      Some passed \<Rightarrow> Some (Inr (Next (lv\<lparr>full_param_vals := passed\<rparr>), st2))
                    | None \<Rightarrow>
                        if SEED then Some (Inr (Next lv, st2))
                        else random_seed n env lv st2)
                   (\<lambda>(seeded, st3).
                      case seeded of
                        Return_None \<Rightarrow> Some (Inr st3)
                      | Next lv1 \<Rightarrow>
                          bind_run (raise_or (update_param_count (parent_mute_param_vals lv1) st3))
                            (\<lambda>st4. improvement_loop main_rec n env next_loop lv1 st4))))"

text \<open>
  \<^verbatim>\<open>Algorithm.main\<close>. The first argument bounds the depth of the calls and the
  passes through the loops: \<open>None\<close> says that \<^verbatim>\<open>main\<close> has not returned within it.
\<close>

primrec main :: "nat \<Rightarrow> 'v env \<Rightarrow> nat option \<Rightarrow> 'v state \<Rightarrow> 'v state run" where
  "main 0 env next_loop st = None"
| "main (Suc n) env next_loop st = main_body (main n env) n env next_loop st"

subsection \<open>Notions of the properties\<close>

text \<open>What a part of the body hands on: the variables of the loop, or the state.\<close>

definition next_vars :: "('a flow \<times> 's) run \<Rightarrow> 'a option" where
  "next_vars r = (case r of Some (Inr (Next x, s)) \<Rightarrow> Some x | _ \<Rightarrow> None)"

definition state_after :: "('a \<times> 's) run \<Rightarrow> 's option" where
  "state_after r = (case r of Some (Inr (x, s)) \<Rightarrow> Some s | _ \<Rightarrow> None)"

definition returned :: "'s run \<Rightarrow> 's option" where
  "returned r = (case r of Some (Inr s) \<Rightarrow> Some s | _ \<Rightarrow> None)"

text \<open>
  An assignment gives every mutable parameter a value of its candidate list; and
  an assignment has the parameters of the ranges, in their order, each with a
  value of its candidate list.
\<close>

definition in_ranges :: "'v ranges \<Rightarrow> 'v assignment \<Rightarrow> bool" where
  "in_ranges rs pv =
     list_all (\<lambda>(param, param_range).
        case map_of pv param of None \<Rightarrow> False | Some v \<Rightarrow> v \<in> set param_range) rs"

definition assigned_in :: "'v ranges \<Rightarrow> 'v assignment \<Rightarrow> bool" where
  "assigned_in rs res =
     list_all2 (\<lambda>(param, v) (param', param_range). param = param' \<and> v \<in> set param_range) res rs"




text \<open>Some income has in \<open>own\<close> a later \<^verbatim>\<open>last_date\<close> than at its position in \<open>saved\<close>.\<close>

definition later_than :: "real list \<Rightarrow> real list \<Rightarrow> bool" where
  "later_than own saved = list_ex (\<lambda>(d, s). d > s) (zip own saved)"

subsection \<open>Example inputs\<close>

definition ex_details :: "(string \<times> int list option) list" where
  "ex_details =
     [(''a'', Some [0, 1, 2]), (''b'', Some [0, 1, 2]), (''c'', Some [0, 1, 2]), (''years'', None)]"

definition ex_ranges :: "int ranges" where
  "ex_ranges = [(''a'', [0, 1, 2]), (''b'', [0, 1, 2]), (''c'', [0, 1, 2])]"

definition ex_parent :: "int assignment" where
  "ex_parent = [(''a'', 1), (''b'', 1), (''c'', 1)]"

definition ex_full :: "int full_params" where
  "ex_full = \<lparr>scalars = [(''a'', 1), (''b'', 1), (''c'', 1), (''years'', 30)],
              user_jobs = [2035], partner_jobs = [2040]\<rparr>"

text \<open>
  Draws that make the first twelve step mutations of \<open>ex_parent\<close> differ, for a
  deviation of 1 as for one of 4.
\<close>

definition ex_draws :: "nat \<Rightarrow> nat" where
  "ex_draws k =
     (if k < 36
      then [3, 3, 3,  3, 3, 4,  3, 3, 5,  3, 4, 3,  3, 4, 4,  3, 4, 5,
            3, 5, 3,  3, 5, 4,  3, 5, 5,  4, 3, 3,  4, 3, 4,  4, 3, 5] ! k
      else 3)"

definition ex_env :: "(nat \<Rightarrow> sim_results) \<Rightarrow> int env" where
  "ex_env answers =
     \<lparr>param_details = ex_details,
      simulator_main = (\<lambda>k full ov. answers k),
      rng = ex_draws,
      save_from_genetic = (\<lambda>ps reduce saved. saved)\<rparr>"

text \<open>The state before \<^verbatim>\<open>main\<close> is called, and a state inside its loop.\<close>

definition ex_state :: "int state" where
  "ex_state =
     \<lparr>store = (\<lambda>r. ex_full), next_ref = 0, mutable_param_ranges = [],
      prev_used_params = [], self_returns = None, reset_success = False, param_cnt = [],
      tally_file = None, MONTE_CARLO_RUNS = 1000, model_param_vals = ex_full,
      persisted = ex_full, rng_pos = 0, oracle_calls = 0\<rparr>"

definition ex_loop_state :: "int state" where
  "ex_loop_state =
     ex_state\<lparr>next_ref := 1, mutable_param_ranges := ex_ranges,
       param_cnt := zero_tally ex_ranges, tally_file := Some (zero_tally ex_ranges)\<rparr>"

definition ex_vars :: "real \<Rightarrow> nat \<Rightarrow> int loop_vars" where
  "ex_vars r q =
     \<lparr>full_param_vals = 0, parent_mute_param_vals = ex_parent, success_rate = r,
      parent_is_best_qty = q\<rparr>"

text \<open>Simulators: one per scenario, by the number of the call.\<close>

definition always_zero :: "nat \<Rightarrow> sim_results" where
  "always_zero k = Results 0 7"

definition good_then_quit :: "nat \<Rightarrow> sim_results" where
  "good_then_quit k = (if k < 10 then Results (96 / 100) k else Empty_dict)"

definition good_then_worse :: "nat \<Rightarrow> sim_results" where
  "good_then_worse k = (if k < 10 then Results (96 / 100) k else Results (90 / 100) k)"

definition good_then_better :: "nat \<Rightarrow> sim_results" where
  "good_then_better k = (if k < 10 then Results (96 / 100) k else Results (97 / 100) k)"

definition poor_then_fair :: "nat \<Rightarrow> sim_results" where
  "poor_then_fair k = (if k < 10 then Results (55 / 100) k else Results (70 / 100) k)"

text \<open>A state of the loop in which ten simulations have been run.\<close>

definition ex_confirm_state :: "int state" where
  "ex_confirm_state = ex_loop_state\<lparr>oracle_calls := 10\<rparr>"

text \<open>States whose persisted \<^verbatim>\<open>last_date\<close> of the user's job is later, and earlier.\<close>

definition persisted_later :: "int state" where
  "persisted_later = ex_loop_state\<lparr>persisted := ex_full\<lparr>user_jobs := [2036]\<rparr>\<rparr>"

definition persisted_earlier :: "int state" where
  "persisted_earlier = ex_loop_state\<lparr>persisted := ex_full\<lparr>user_jobs := [2034]\<rparr>\<rparr>"

section \<open>Proofs\<close>

lemma bind_run_simps [simp]:
  "bind_run None f = None"
  "bind_run (Some (Inl e)) f = Some (Inl e)"
  "bind_run (Some (Inr x)) f = f x"
  by (simp_all add: bind_run_def)

subsection \<open>The number of runs\<close>

lemma small_power: "(5000::real) * (1 / 20) ^ 70 \<le> 100"
proof -
  have "((1::real) / 20) ^ 70 \<le> (1 / 20) ^ 2"
    by (rule power_decreasing) simp_all
  then show ?thesis by (simp add: power2_eq_square)
qed

lemma runs_at_zero: "monte_carlo_runs 0 = 100"
proof -
  have "max (100::real) (min 5000 (5000 * (1 / 20) ^ 70)) = 100"
    using small_power by (simp add: max_def min_def)
  then show ?thesis
    by (simp add: monte_carlo_runs_def py_int_def INITIAL_MONTE_RUNS_def MAX_MONTE_RUNS_def
        TARGET_SUCCESS_RATE_def)
qed

lemma runs_at_target: "monte_carlo_runs (95 / 100) = 5000"
  by (simp add: monte_carlo_runs_def py_int_def INITIAL_MONTE_RUNS_def MAX_MONTE_RUNS_def
      TARGET_SUCCESS_RATE_def)

lemma runs_floor:
  "monte_carlo_runs r =
     \<lfloor>max (of_int INITIAL_MONTE_RUNS)
        (min (of_int MAX_MONTE_RUNS)
           (of_int MAX_MONTE_RUNS * (r + (1 - TARGET_SUCCESS_RATE)) ^ 70))\<rfloor>"
  by (simp add: monte_carlo_runs_def py_int_def INITIAL_MONTE_RUNS_def max_def)

lemma runs_bounds: "100 \<le> monte_carlo_runs r \<and> monte_carlo_runs r \<le> 5000"
  unfolding runs_floor
  by (simp add: INITIAL_MONTE_RUNS_def MAX_MONTE_RUNS_def le_floor_iff floor_le_iff max_def min_def)

lemma runs_literal:
  "monte_carlo_runs r = \<lfloor>max 100 (min 5000 (5000 * (r + (1 - 95 / 100)) ^ 70))\<rfloor>"
  unfolding runs_floor
  by (simp add: INITIAL_MONTE_RUNS_def MAX_MONTE_RUNS_def TARGET_SUCCESS_RATE_def)

lemma override_dict_exact:
  "override_dict r idx st =
     (if idx \<noteq> 0 \<and> self_returns st = None then Inl AttributeError
      else Inr \<lparr>ov_monte_carlo_runs = \<lfloor>max 100 (min 5000 (5000 * (r + (1 - 95 / 100)) ^ 70))\<rfloor>,
                ov_returns = (if idx \<noteq> 0 then self_returns st else None)\<rparr>)"
  by (auto simp: override_dict_def runs_literal split: option.splits)

lemma make_child_hands_over:
  "make_child n env full r mutate parent ms idx st =
     bind_run (mutate_child n env mutate parent ms st)
       (\<lambda>(child, st1).
          if idx \<noteq> 0 \<and> self_returns st1 = None then Some (Inl AttributeError)
          else
            (let full' = (store st1 full)\<lparr>scalars := dict_update (scalars (store st1 full)) child\<rparr>;
                 st2 = st1\<lparr>store := (store st1)(full := full'),
                          oracle_calls := Suc (oracle_calls st1)\<rparr>
             in case simulator_main env (oracle_calls st1) full'
                       \<lparr>ov_monte_carlo_runs =
                          \<lfloor>max 100 (min 5000 (5000 * (r + (1 - 95 / 100)) ^ 70))\<rfloor>,
                        ov_returns = (if idx \<noteq> 0 then self_returns st1 else None)\<rparr> of
                  Empty_dict \<Rightarrow> Some (Inr (None, st2))
                | Results r' rets \<Rightarrow>
                    Some (Inr (Some (r', child), st2\<lparr>self_returns := Some rets\<rparr>))))"
proof -
  have "\<And>x. (case x of (child, st1) \<Rightarrow>
          let full0 = store st1 full;
              full' = full0\<lparr>scalars := dict_update (scalars full0) child\<rparr>;
              st2 = st1\<lparr>store := (store st1)(full := full')\<rparr>
          in bind_run (raise_or (override_dict r idx st2))
               (\<lambda>ov.
                  let st3 = st2\<lparr>oracle_calls := Suc (oracle_calls st2)\<rparr>
                  in case simulator_main env (oracle_calls st2) full' ov of
                       Empty_dict \<Rightarrow> Some (Inr (None, st3))
                     | Results r rets \<Rightarrow>
                         Some (Inr (Some (r, child),
                                    st3\<lparr>self_returns := Some rets\<rparr>))))
      = (case x of (child, st1) \<Rightarrow>
          if idx \<noteq> 0 \<and> self_returns st1 = None then Some (Inl AttributeError)
          else
            (let full' = (store st1 full)\<lparr>scalars := dict_update (scalars (store st1 full)) child\<rparr>;
                 st2 = st1\<lparr>store := (store st1)(full := full'),
                          oracle_calls := Suc (oracle_calls st1)\<rparr>
             in case simulator_main env (oracle_calls st1) full'
                       \<lparr>ov_monte_carlo_runs =
                          \<lfloor>max 100 (min 5000 (5000 * (r + (1 - 95 / 100)) ^ 70))\<rfloor>,
                        ov_returns = (if idx \<noteq> 0 then self_returns st1 else None)\<rparr> of
                  Empty_dict \<Rightarrow> Some (Inr (None, st2))
                | Results r' rets \<Rightarrow>
                    Some (Inr (Some (r', child), st2\<lparr>self_returns := Some rets\<rparr>))))"
    by (auto simp: override_dict_exact raise_or_def Let_def split: sim_results.splits)
  then show ?thesis unfolding make_child_def by presburger
qed

lemma budget_comes_back:
  "map_option (map_sum id (\<lambda>res. map_option fst (fst res)))
     (make_child n (env\<lparr>simulator_main := (\<lambda>k full ov. Results (of_int (ov_monte_carlo_runs ov)) 0)\<rparr>)
        full r mutate parent ms 0 st)
   = map_option (map_sum id
         (\<lambda>res. Some (of_int \<lfloor>max 100 (min 5000 (5000 * (r + (1 - 95 / 100)) ^ 70))\<rfloor>)))
       (mutate_child n (env\<lparr>simulator_main := (\<lambda>k full ov. Results (of_int (ov_monte_carlo_runs ov)) 0)\<rparr>)
          mutate parent ms st)"
proof (cases "mutate_child n (env\<lparr>simulator_main := (\<lambda>k full ov. Results (of_int (ov_monte_carlo_runs ov)) 0)\<rparr>)
          mutate parent ms st")
  case None
  then show ?thesis by (simp add: make_child_hands_over)
next
  case (Some x)
  then show ?thesis
    by (cases x) (auto simp: make_child_hands_over Let_def)
qed

text \<open>
  C6. For a prior success rate \<open>r\<close>, \<^verbatim>\<open>_make_child\<close> mutates and then calls the
  simulator with an \<^verbatim>\<open>override_dict\<close> whose \<^verbatim>\<open>monte_carlo_runs\<close> is the integer
  part of \<^verbatim>\<open>max(100, min(5000, 5000 * (r + (1 - 0.95)) ** 70))\<close>, whatever the
  mutation, the index of the child and the simulator: a simulator that answers
  with the number of runs it was given makes \<^verbatim>\<open>_make_child\<close> return that number
  as the rate. \<^verbatim>\<open>override_dict\<close> is built with that number unless the index is
  not 0 and no draws were stored. The number is the formula on the constants of
  the module, lies between \<^verbatim>\<open>INITIAL_MONTE_RUNS\<close> and \<^verbatim>\<open>MAX_MONTE_RUNS\<close>, is
  \<^verbatim>\<open>INITIAL_MONTE_RUNS\<close> for the rate 0 and \<^verbatim>\<open>MAX_MONTE_RUNS\<close> for the rate 0.95.
  Rates are real numbers here.
\<close>

theorem budget_formula:
  "make_child n env full r mutate parent ms idx st =
     bind_run (mutate_child n env mutate parent ms st)
       (\<lambda>(child, st1).
          if idx \<noteq> 0 \<and> self_returns st1 = None then Some (Inl AttributeError)
          else
            (let full' = (store st1 full)\<lparr>scalars := dict_update (scalars (store st1 full)) child\<rparr>;
                 st2 = st1\<lparr>store := (store st1)(full := full'),
                          oracle_calls := Suc (oracle_calls st1)\<rparr>
             in case simulator_main env (oracle_calls st1) full'
                       \<lparr>ov_monte_carlo_runs =
                          \<lfloor>max 100 (min 5000 (5000 * (r + (1 - 95 / 100)) ^ 70))\<rfloor>,
                        ov_returns = (if idx \<noteq> 0 then self_returns st1 else None)\<rparr> of
                  Empty_dict \<Rightarrow> Some (Inr (None, st2))
                | Results r' rets \<Rightarrow>
                    Some (Inr (Some (r', child), st2\<lparr>self_returns := Some rets\<rparr>))))
   \<and> map_option (map_sum id (\<lambda>res. map_option fst (fst res)))
       (make_child n
          (env\<lparr>simulator_main := (\<lambda>k full ov. Results (of_int (ov_monte_carlo_runs ov)) 0)\<rparr>)
          full r mutate parent ms 0 st)
     = map_option (map_sum id
           (\<lambda>res. Some (of_int \<lfloor>max 100 (min 5000 (5000 * (r + (1 - 95 / 100)) ^ 70))\<rfloor>)))
         (mutate_child n
            (env\<lparr>simulator_main := (\<lambda>k full ov. Results (of_int (ov_monte_carlo_runs ov)) 0)\<rparr>)
            mutate parent ms st)
   \<and> override_dict r idx st =
       (if idx \<noteq> 0 \<and> self_returns st = None then Inl AttributeError
        else Inr \<lparr>ov_monte_carlo_runs = \<lfloor>max 100 (min 5000 (5000 * (r + (1 - 95 / 100)) ^ 70))\<rfloor>,
                  ov_returns = (if idx \<noteq> 0 then self_returns st else None)\<rparr>)
   \<and> monte_carlo_runs r =
       \<lfloor>max (of_int INITIAL_MONTE_RUNS)
          (min (of_int MAX_MONTE_RUNS)
             (of_int MAX_MONTE_RUNS * (r + (1 - TARGET_SUCCESS_RATE)) ^ 70))\<rfloor>
   \<and> TARGET_SUCCESS_RATE = 95 / 100 \<and> INITIAL_MONTE_RUNS = 100 \<and> MAX_MONTE_RUNS = 5000
   \<and> INITIAL_MONTE_RUNS \<le> monte_carlo_runs r \<and> monte_carlo_runs r \<le> MAX_MONTE_RUNS
   \<and> monte_carlo_runs 0 = INITIAL_MONTE_RUNS
   \<and> monte_carlo_runs TARGET_SUCCESS_RATE = MAX_MONTE_RUNS"
  using make_child_hands_over [of n env full r mutate parent ms idx st]
    budget_comes_back [of n env full r mutate parent ms st]
    override_dict_exact [of r idx st]
    runs_floor [of r] runs_bounds [of r] runs_at_zero runs_at_target
  by (simp add: TARGET_SUCCESS_RATE_def INITIAL_MONTE_RUNS_def MAX_MONTE_RUNS_def)

subsection \<open>The tally\<close>

lemma index_of_Some_iff: "(\<exists>i. index_of xs v = Some i) \<longleftrightarrow> v \<in> set xs"
  by (induction xs) auto

lemma index_of_less: "index_of xs v = Some i \<Longrightarrow> i < length xs \<and> xs ! i = v"
  by (induction xs arbitrary: i) (auto split: if_splits)








subsection \<open>Mutation\<close>

lemma random_choice_in: "random_choice d xs = Inr v \<Longrightarrow> v \<in> set xs"
  by (auto simp: random_choice_def split: if_splits)

lemma random_mutate_assigned: "random_mutate g pos rs = Inr res \<Longrightarrow> assigned_in rs res"
proof (induction rs arbitrary: pos res)
  case Nil
  then show ?case by (simp add: assigned_in_def)
next
  case (Cons a rest)
  obtain p rg where a: "a = (p, rg)" by (cases a)
  from Cons.prems a obtain v res' where
    r: "random_choice (g pos) rg = Inr v" "random_mutate g (Suc pos) rest = Inr res'"
       "res = (p, v) # res'"
    by (auto split: sum.splits)
  from Cons.IH[OF r(2)] random_choice_in[OF r(1)] r(3) a show ?case
    by (simp add: assigned_in_def)
qed

lemma random_mutate_returns:
  "list_all (\<lambda>(p, rg). rg \<noteq> []) rs \<Longrightarrow> \<exists>res. random_mutate g pos rs = Inr res"
proof (induction rs arbitrary: pos)
  case Nil
  then show ?case by simp
next
  case (Cons a rest)
  obtain p rg where a: "a = (p, rg)" by (cases a)
  from Cons.prems a have "rg \<noteq> []" "list_all (\<lambda>(p, rg). rg \<noteq> []) rest" by simp_all
  with Cons.IH[of "Suc pos"] a show ?case by (auto simp: random_choice_def)
qed

lemma step_sample_assigned:
  "step_sample g pos rs parent ms = Inr res \<Longrightarrow> assigned_in rs res"
proof (induction rs arbitrary: pos res)
  case Nil
  then show ?case by (simp add: assigned_in_def)
next
  case (Cons a rest)
  obtain p rg where a: "a = (p, rg)" by (cases a)
  from Cons.prems a obtain v old_idx gi res' where
    r: "map_of parent p = Some v" "index_of rg v = Some old_idx"
       "gaussian_int (g pos) (int old_idx) ms = Inr gi"
       "step_sample g (Suc pos) rest parent ms = Inr res'"
       "res = (p, rg ! nat (min (int (length rg) - 1) (max 0 gi))) # res'"
    by (auto split: sum.splits option.splits simp: Let_def)
  have "old_idx < length rg" using index_of_less[OF r(2)] by simp
  then have "nat (min (int (length rg) - 1) (max 0 gi)) < length rg" by auto
  then have "rg ! nat (min (int (length rg) - 1) (max 0 gi)) \<in> set rg" by simp
  with Cons.IH[OF r(4)] r(5) a show ?case by (simp add: assigned_in_def)
qed

lemma step_sample_returns:
  "in_ranges rs parent \<Longrightarrow> 1 \<le> ms \<Longrightarrow> \<exists>res. step_sample g pos rs parent ms = Inr res"
proof (induction rs arbitrary: pos)
  case Nil
  then show ?case by simp
next
  case (Cons a rest)
  obtain p rg where a: "a = (p, rg)" by (cases a)
  from Cons.prems(1) a obtain v where v: "map_of parent p = Some v" "v \<in> set rg"
    by (auto simp: in_ranges_def split: option.splits)
  then obtain i where i: "index_of rg v = Some i" using index_of_Some_iff by metis
  have rest: "in_ranges rest parent" using Cons.prems(1) by (simp add: in_ranges_def)
  from Cons.IH[OF rest Cons.prems(2)] obtain res' where
    "step_sample g (Suc pos) rest parent ms = Inr res'" by blast
  then show ?case using a v i Cons.prems(2) by (simp add: gaussian_int_def Let_def)
qed

lemma step_mutate_result:
  "step_mutate n g pos rs prev parent ms = Some (Inr (res, pos')) \<Longrightarrow>
   res \<notin> set prev \<and> assigned_in rs res \<and> (\<exists>k. pos' = pos + Suc k * length rs \<and>
       step_sample g (pos + k * length rs) rs parent ms = Inr res)"
proof (induction n arbitrary: pos)
  case 0
  then show ?case by simp
next
  case (Suc n)
  show ?case
  proof (cases "step_sample g pos rs parent ms")
    case (Inl e)
    with Suc.prems show ?thesis by simp
  next
    case (Inr s)
    show ?thesis
    proof (cases "s \<in> set prev")
      case True
      with Inr Suc.prems
      have "step_mutate n g (pos + length rs) rs prev parent ms = Some (Inr (res, pos'))"
        by simp
      from Suc.IH[OF this] obtain k where
        k: "res \<notin> set prev" "assigned_in rs res" "pos' = pos + length rs + Suc k * length rs"
           "step_sample g (pos + length rs + k * length rs) rs parent ms = Inr res"
        by blast
      have "pos' = pos + Suc (Suc k) * length rs" using k(3) by simp
      moreover have "step_sample g (pos + Suc k * length rs) rs parent ms = Inr res"
        using k(4) by (simp add: add.assoc)
      ultimately show ?thesis using k(1,2) by blast
    next
      case False
      with Inr Suc.prems have e: "res = s" "pos' = pos + length rs" by simp_all
      then have "pos' = pos + Suc 0 * length rs"
        "step_sample g (pos + 0 * length rs) rs parent ms = Inr res"
        using Inr by simp_all
      then show ?thesis using False e(1) step_sample_assigned[OF Inr] by blast
    qed
  qed
qed

lemma step_mutate_no_error:
  "in_ranges rs parent \<Longrightarrow> 1 \<le> ms \<Longrightarrow> step_mutate n g pos rs prev parent ms \<noteq> Some (Inl e)"
proof (induction n arbitrary: pos)
  case 0
  then show ?case by simp
next
  case (Suc n)
  from step_sample_returns[OF Suc.prems] obtain s where
    "step_sample g pos rs parent ms = Inr s" by blast
  then show ?case using Suc.IH[OF Suc.prems] by simp
qed

lemma step_mutate_returns:
  "(\<forall>j<k. \<exists>c. step_sample g (pos + j * length rs) rs parent ms = Inr c \<and> c \<in> set prev) \<Longrightarrow>
   step_sample g (pos + k * length rs) rs parent ms = Inr fresh \<Longrightarrow> fresh \<notin> set prev \<Longrightarrow>
   step_mutate (Suc k + m) g pos rs prev parent ms = Some (Inr (fresh, pos + Suc k * length rs))"
proof (induction k arbitrary: pos)
  case 0
  then show ?case by simp
next
  case (Suc k)
  from Suc.prems(1)
  have "\<exists>c. step_sample g (pos + 0 * length rs) rs parent ms = Inr c \<and> c \<in> set prev"
    by blast
  then obtain c where c: "step_sample g pos rs parent ms = Inr c" "c \<in> set prev" by auto
  have a: "\<forall>j<k. \<exists>c. step_sample g (pos + length rs + j * length rs) rs parent ms = Inr c \<and>
             c \<in> set prev"
  proof (intro allI impI)
    fix j assume "j < k"
    then have "Suc j < Suc k" by simp
    with Suc.prems(1)
    have "\<exists>c. step_sample g (pos + Suc j * length rs) rs parent ms = Inr c \<and> c \<in> set prev"
      by blast
    then show "\<exists>c. step_sample g (pos + length rs + j * length rs) rs parent ms = Inr c \<and>
                 c \<in> set prev"
      by (simp add: add.assoc)
  qed
  have b: "step_sample g (pos + length rs + k * length rs) rs parent ms = Inr fresh"
    using Suc.prems(2) by (simp add: add.assoc)
  from Suc.IH[OF a b Suc.prems(3)] c show ?case by (simp add: add.assoc)
qed

lemma assigned_in_ranges:
  "distinct (map fst rs) \<Longrightarrow> assigned_in rs res \<Longrightarrow> in_ranges rs res"
proof (induction rs arbitrary: res)
  case Nil
  then show ?case by (simp add: in_ranges_def)
next
  case (Cons a rest)
  obtain p rg where a: "a = (p, rg)" by (cases a)
  from Cons.prems(2) a obtain v res' where
    r: "res = (p, v) # res'" "v \<in> set rg" "assigned_in rest res'"
    by (auto simp: assigned_in_def list_all2_Cons2)
  have keys: "map fst res' = map fst rest"
    using r(3) unfolding assigned_in_def
    by (induction res' rest rule: list_all2_induct) auto
  have notin: "p \<notin> fst ` set rest" using Cons.prems(1) a by auto
  have ih: "in_ranges rest res'" using Cons.IH r(3) Cons.prems(1) by simp
  have "list_all (\<lambda>(param, param_range).
          case map_of res param of None \<Rightarrow> False | Some v \<Rightarrow> v \<in> set param_range) rest"
    unfolding list_all_iff
  proof (clarify)
    fix q rg' assume x: "(q, rg') \<in> set rest"
    then have "q \<noteq> p" using notin by force
    then have "map_of res q = map_of res' q" using r(1) by simp
    moreover have "case map_of res' q of None \<Rightarrow> False | Some v \<Rightarrow> v \<in> set rg'"
      using ih x by (auto simp: in_ranges_def list_all_iff)
    ultimately show "case map_of res q of None \<Rightarrow> False | Some v \<Rightarrow> v \<in> set rg'" by simp
  qed
  then show ?case using a r(1,2) by (simp add: in_ranges_def)
qed

text \<open>
  C7. For a parent whose values are in the candidate lists and a step of at least
  1, \<^verbatim>\<open>_random_mutate\<close> returns an assignment that gives each mutable parameter a
  value of its candidate list, the sampling of \<^verbatim>\<open>_step_mutate\<close> raises nothing
  and gives such an assignment, and \<^verbatim>\<open>_step_mutate\<close> either returns such an
  assignment or goes on sampling. The parameter names being distinct, as in a
  dict, the returned assignment is again one whose values are in the candidate
  lists.
\<close>

theorem mutations_stay_in_ranges:
  assumes "in_ranges rs parent" and "1 \<le> max_step" and "distinct (map fst rs)"
  shows "(\<exists>res. random_mutate g pos rs = Inr res \<and> assigned_in rs res \<and> in_ranges rs res)
       \<and> (\<exists>res. step_sample g pos rs parent max_step = Inr res \<and> assigned_in rs res)
       \<and> (\<forall>n. step_mutate n g pos rs prev parent max_step = None \<or>
              (\<exists>res pos'. step_mutate n g pos rs prev parent max_step = Some (Inr (res, pos')) \<and>
                 assigned_in rs res \<and> in_ranges rs res))"
proof -
  have "list_all (\<lambda>(p, rg). rg \<noteq> []) rs"
    using assms(1) by (auto simp: in_ranges_def list_all_iff split: option.splits)
  from random_mutate_returns[OF this] obtain res0 where "random_mutate g pos rs = Inr res0"
    by blast
  then have a: "\<exists>res. random_mutate g pos rs = Inr res \<and> assigned_in rs res \<and> in_ranges rs res"
    using random_mutate_assigned assigned_in_ranges[OF assms(3)] by blast
  have b: "\<exists>res. step_sample g pos rs parent max_step = Inr res \<and> assigned_in rs res"
    using step_sample_returns[OF assms(1,2)] step_sample_assigned by blast
  have c: "\<forall>n. step_mutate n g pos rs prev parent max_step = None \<or>
      (\<exists>res pos'. step_mutate n g pos rs prev parent max_step = Some (Inr (res, pos')) \<and>
         assigned_in rs res \<and> in_ranges rs res)"
  proof
    fix n
    show "step_mutate n g pos rs prev parent max_step = None \<or>
      (\<exists>res pos'. step_mutate n g pos rs prev parent max_step = Some (Inr (res, pos')) \<and>
         assigned_in rs res \<and> in_ranges rs res)"
    proof (cases "step_mutate n g pos rs prev parent max_step")
      case None
      then show ?thesis by simp
    next
      case (Some r)
      show ?thesis
      proof (cases r)
        case (Inl e)
        with Some step_mutate_no_error[OF assms(1,2)] show ?thesis by blast
      next
        case (Inr x)
        obtain res pos' where "x = (res, pos')" by (cases x)
        with Some Inr
        have e: "step_mutate n g pos rs prev parent max_step = Some (Inr (res, pos'))"
          by simp
        from step_mutate_result[OF e] have "assigned_in rs res" by simp
        with e assigned_in_ranges[OF assms(3)] show ?thesis by blast
      qed
    qed
  qed
  from a b c show ?thesis by blast
qed

theorem mutations_stay_in_ranges_witness:
  "random_mutate ex_draws 6 ex_ranges = Inr [(''a'', 0), (''b'', 0), (''c'', 2)]
   \<and> step_mutate 1 ex_draws 6 ex_ranges [] ex_parent 1
       = Some (Inr ([(''a'', 0), (''b'', 0), (''c'', 2)], 9))
   \<and> assigned_in ex_ranges [(''a'', 0), (''b'', 0), (''c'', 2)]
   \<and> in_ranges ex_ranges [(''a'', 0), (''b'', 0), (''c'', 2)]"
proof -
  have 1: "in_ranges ex_ranges ex_parent"
    by (simp add: in_ranges_def ex_ranges_def ex_parent_def)
  have 2: "(1::int) \<le> 1" by simp
  have 3: "distinct (map fst ex_ranges)" by (simp add: ex_ranges_def)
  have r: "random_mutate ex_draws 6 ex_ranges = Inr [(''a'', 0), (''b'', 0), (''c'', 2)]"
    by (simp add: ex_ranges_def ex_draws_def random_choice_def)
  have s: "step_mutate 1 ex_draws 6 ex_ranges [] ex_parent 1
             = Some (Inr ([(''a'', 0), (''b'', 0), (''c'', 2)], 9))"
    by (simp add: ex_ranges_def ex_draws_def ex_parent_def gaussian_int_def)
  from mutations_stay_in_ranges[OF 1 2 3, where g = ex_draws and pos = 6]
  have "\<exists>res. random_mutate ex_draws 6 ex_ranges = Inr res \<and>
          assigned_in ex_ranges res \<and> in_ranges ex_ranges res"
    by blast
  then have "assigned_in ex_ranges [(''a'', 0), (''b'', 0), (''c'', 2)]
      \<and> in_ranges ex_ranges [(''a'', 0), (''b'', 0), (''c'', 2)]"
    unfolding r by simp
  with r s show ?thesis by blast
qed

text \<open>
  The call need not return, also while the history is smaller than the product of
  the candidate lists: of five candidates a step of 1 reaches three, and when all
  three are in the history every sample is, whatever the draws.
\<close>

lemma step_mutate_may_not_return:
  "step_mutate n g pos [(''x'', [1, 2, 3, 4, 5 :: int])]
     [[(''x'', 2)], [(''x'', 3)], [(''x'', 4)]] [(''x'', 3)] 1 = None"
proof (induction n arbitrary: pos)
  case 0
  then show ?case by simp
next
  case (Suc n)
  have "int (g pos) mod 3 = 0 \<or> int (g pos) mod 3 = 1 \<or> int (g pos) mod 3 = 2"
    by presburger
  then have "step_sample g pos [(''x'', [1, 2, 3, 4, 5 :: int])] [(''x'', 3)] 1
               \<in> {Inr [(''x'', 2)], Inr [(''x'', 3)], Inr [(''x'', 4)]}"
    by (auto simp: gaussian_int_def)
  then show ?case using Suc.IH by auto
qed

text \<open>
  C8. An assignment that \<^verbatim>\<open>_step_mutate\<close> returns is not in \<^verbatim>\<open>prev_used_params\<close>,
  whatever the size of the history: it is the last of the samples drawn one after
  the other. And when the first \<open>k\<close> samples are in the history and the next one
  is not, the call returns that one, within \<open>k\<close> recursive calls: a sample that is
  in the history is drawn again and never returned.
\<close>

theorem step_mutate_returns_unused:
  "(step_mutate n g pos rs prev parent max_step = Some (Inr (res, pos')) \<longrightarrow>
      res \<notin> set prev \<and>
      (\<exists>k. pos' = pos + Suc k * length rs \<and>
           step_sample g (pos + k * length rs) rs parent max_step = Inr res))
   \<and> ((\<forall>j<k. \<exists>c. step_sample g (pos + j * length rs) rs parent max_step = Inr c \<and>
                 c \<in> set prev) \<and>
      step_sample g (pos + k * length rs) rs parent max_step = Inr fresh \<and>
      fresh \<notin> set prev \<longrightarrow>
      step_mutate (Suc k + m) g pos rs prev parent max_step
        = Some (Inr (fresh, pos + Suc k * length rs)))"
proof (intro conjI impI)
  assume "step_mutate n g pos rs prev parent max_step = Some (Inr (res, pos'))"
  from step_mutate_result[OF this]
  show "res \<notin> set prev" and "\<exists>k. pos' = pos + Suc k * length rs \<and>
           step_sample g (pos + k * length rs) rs parent max_step = Inr res"
    by blast+
next
  assume a: "(\<forall>j<k. \<exists>c. step_sample g (pos + j * length rs) rs parent max_step = Inr c \<and>
                 c \<in> set prev) \<and>
      step_sample g (pos + k * length rs) rs parent max_step = Inr fresh \<and>
      fresh \<notin> set prev"
  then show "step_mutate (Suc k + m) g pos rs prev parent max_step
        = Some (Inr (fresh, pos + Suc k * length rs))"
    using step_mutate_returns[of k g pos rs parent max_step prev fresh m] by blast
qed

theorem step_mutate_returns_unused_witness:
  "step_sample ex_draws 0 ex_ranges ex_parent 1 = Inr [(''a'', 0), (''b'', 0), (''c'', 0)]
   \<and> step_mutate 2 ex_draws 0 ex_ranges [[(''a'', 0), (''b'', 0), (''c'', 0)]] ex_parent 1
       = Some (Inr ([(''a'', 0), (''b'', 0), (''c'', 1)], 6))
   \<and> [(''a'', 0), (''b'', 0), (''c'', 1)] \<notin> set [[(''a'', 0), (''b'', 0), (''c'', 0 :: int)]]"
proof -
  let ?prev = "[[(''a'', 0), (''b'', 0), (''c'', 0 :: int)]]"
  have c: "step_sample ex_draws 0 ex_ranges ex_parent 1 = Inr [(''a'', 0), (''b'', 0), (''c'', 0)]"
    by (simp add: ex_ranges_def ex_draws_def ex_parent_def gaussian_int_def)
  have f: "step_sample ex_draws (0 + 1 * length ex_ranges) ex_ranges ex_parent 1
             = Inr [(''a'', 0), (''b'', 0), (''c'', 1)]"
    by (simp add: ex_ranges_def ex_draws_def ex_parent_def gaussian_int_def)
  have h: "\<forall>j<1. \<exists>c. step_sample ex_draws (0 + j * length ex_ranges) ex_ranges ex_parent 1 = Inr c \<and>
             c \<in> set ?prev"
    using c by simp
  have n: "[(''a'', 0), (''b'', 0), (''c'', 1)] \<notin> set ?prev" by simp
  from step_mutate_returns_unused[of _ ex_draws 0 ex_ranges ?prev ex_parent 1 _ _ 1
         "[(''a'', 0), (''b'', 0), (''c'', 1)]" 0] h f n
  have s: "step_mutate (Suc 1 + 0) ex_draws 0 ex_ranges ?prev ex_parent 1
        = Some (Inr ([(''a'', 0), (''b'', 0), (''c'', 1)], 0 + Suc 1 * length ex_ranges))"
    by blast
  have "0 + Suc 1 * length ex_ranges = 6" by (simp add: ex_ranges_def)
  with s have s': "step_mutate 2 ex_draws 0 ex_ranges ?prev ex_parent 1
        = Some (Inr ([(''a'', 0), (''b'', 0), (''c'', 1)], 6))"
    by (simp add: numeral_2_eq_2)
  from step_mutate_returns_unused[of 2 ex_draws 0 ex_ranges ?prev ex_parent 1
         "[(''a'', 0), (''b'', 0), (''c'', 1)]" 6] s'
  have "[(''a'', 0), (''b'', 0), (''c'', 1)] \<notin> set ?prev" by blast
  with c s' show ?thesis by blast
qed

subsection \<open>Being overtaken\<close>

lemma check_jobs_quiet:
  "i + length ds \<le> length (jobs_of u (persisted st)) \<Longrightarrow>
   \<not> later_than ds (drop i (jobs_of u (persisted st))) \<Longrightarrow>
   check_jobs restart u i ds st = Some (Inr st)"
proof (induction ds arbitrary: i)
  case Nil
  then show ?case by simp
next
  case (Cons d ds)
  let ?saved = "jobs_of u (persisted st)"
  have i: "i < length ?saved" using Cons.prems(1) by simp
  then have dr: "drop i ?saved = ?saved ! i # drop (Suc i) ?saved"
    by (simp add: Cons_nth_drop_Suc)
  from Cons.prems(2) dr have a: "\<not> d > ?saved ! i" "\<not> later_than ds (drop (Suc i) ?saved)"
    by (simp_all add: later_than_def)
  have "check_jobs restart u (Suc i) ds st = Some (Inr st)"
    using Cons.IH[OF _ a(2)] Cons.prems(1) by simp
  then show ?case using i a(1) by simp
qed

lemma check_jobs_beaten:
  "i + length ds \<le> length (jobs_of u (persisted st)) \<Longrightarrow>
   later_than ds (drop i (jobs_of u (persisted st))) \<Longrightarrow>
   check_jobs (\<lambda>s. None) u i ds st = None"
proof (induction ds arbitrary: i)
  case Nil
  then show ?case by (simp add: later_than_def)
next
  case (Cons d ds)
  let ?saved = "jobs_of u (persisted st)"
  have i: "i < length ?saved" using Cons.prems(1) by simp
  then have dr: "drop i ?saved = ?saved ! i # drop (Suc i) ?saved"
    by (simp add: Cons_nth_drop_Suc)
  show ?case
  proof (cases "d > ?saved ! i")
    case True
    then show ?thesis using i by simp
  next
    case False
    with Cons.prems(2) dr have "later_than ds (drop (Suc i) ?saved)"
      by (simp add: later_than_def)
    then have "check_jobs (\<lambda>s. None) u (Suc i) ds st = None"
      using Cons.IH[of "Suc i"] Cons.prems(1) by simp
    then show ?thesis using i False by simp
  qed
qed

text \<open>
  C1, as the code has it. The check compares the \<^verbatim>\<open>last_date\<close> of every income of
  the loop's own full assignment with the persisted one at the same position. It
  calls \<^verbatim>\<open>main\<close> again exactly when some own date is strictly later than the
  persisted one, that is, when the persisted date is strictly earlier: with a
  restart that never returns the check never returns. When every persisted date is
  equal to the own one or later, the check returns at once with the state as it
  was and calls nothing. (The persisted lists are at least as long as the own
  ones; otherwise the check can raise \<^verbatim>\<open>IndexError\<close>.)
\<close>

theorem beaten_when_persisted_is_earlier:
  assumes "length (user_jobs (store st full)) \<le> length (user_jobs (persisted st))"
    and "length (partner_jobs (store st full)) \<le> length (partner_jobs (persisted st))"
  shows "(check_if_beaten (\<lambda>s. None) full st = None \<longleftrightarrow>
            later_than (user_jobs (store st full)) (user_jobs (persisted st)) \<or>
            later_than (partner_jobs (store st full)) (partner_jobs (persisted st)))
       \<and> (\<not> later_than (user_jobs (store st full)) (user_jobs (persisted st)) \<and>
          \<not> later_than (partner_jobs (store st full)) (partner_jobs (persisted st)) \<longrightarrow>
          (\<forall>restart. check_if_beaten restart full st = Some (Inr st)))"
proof -
  let ?uo = "user_jobs (store st full)" and ?us = "user_jobs (persisted st)"
  let ?po = "partner_jobs (store st full)" and ?ps = "partner_jobs (persisted st)"
  have lu: "0 + length ?uo \<le> length (jobs_of User (persisted st))"
    using assms(1) by (simp add: jobs_of_def)
  have lp: "0 + length ?po \<le> length (jobs_of Partner (persisted st))"
    using assms(2) by (simp add: jobs_of_def)
  have quiet: "check_if_beaten restart full st = Some (Inr st)"
    if "\<not> later_than ?uo ?us" "\<not> later_than ?po ?ps" for restart
  proof -
    have "check_jobs restart User 0 ?uo st = Some (Inr st)"
      using check_jobs_quiet[OF lu] that(1) by (simp add: jobs_of_def)
    moreover have "check_jobs restart Partner 0 ?po st = Some (Inr st)"
      using check_jobs_quiet[OF lp] that(2) by (simp add: jobs_of_def)
    ultimately show ?thesis by (simp add: check_if_beaten_def)
  qed
  have beaten: "check_if_beaten (\<lambda>s. None) full st = None"
    if "later_than ?uo ?us \<or> later_than ?po ?ps"
  proof (cases "later_than ?uo ?us")
    case True
    then have "check_jobs (\<lambda>s. None) User 0 ?uo st = None"
      using check_jobs_beaten[OF lu] by (simp add: jobs_of_def)
    then show ?thesis by (simp add: check_if_beaten_def)
  next
    case False
    then have u: "check_jobs (\<lambda>s. None) User 0 ?uo st = Some (Inr st)"
      using check_jobs_quiet[OF lu] by (simp add: jobs_of_def)
    from False that have "later_than ?po ?ps" by simp
    then have "check_jobs (\<lambda>s. None) Partner 0 ?po st = None"
      using check_jobs_beaten[OF lp] by (simp add: jobs_of_def)
    with u show ?thesis by (simp add: check_if_beaten_def)
  qed
  show ?thesis using quiet beaten by (metis option.distinct(1))
qed

theorem beaten_when_persisted_is_earlier_witness:
  "check_if_beaten (\<lambda>s. None) 0 persisted_earlier = None
   \<and> later_than (user_jobs (store persisted_earlier 0)) (user_jobs (persisted persisted_earlier))
   \<and> check_if_beaten (\<lambda>s. None) 0 ex_loop_state = Some (Inr ex_loop_state)"
proof -
  have 1: "length (user_jobs (store persisted_earlier 0)) \<le> length (user_jobs (persisted persisted_earlier))"
    and 2: "length (partner_jobs (store persisted_earlier 0)) \<le> length (partner_jobs (persisted persisted_earlier))"
    by (simp_all add: persisted_earlier_def ex_loop_state_def ex_state_def ex_full_def)
  have 3: "length (user_jobs (store ex_loop_state 0)) \<le> length (user_jobs (persisted ex_loop_state))"
    and 4: "length (partner_jobs (store ex_loop_state 0)) \<le> length (partner_jobs (persisted ex_loop_state))"
    by (simp_all add: ex_loop_state_def ex_state_def ex_full_def)
  have l: "later_than (user_jobs (store persisted_earlier 0)) (user_jobs (persisted persisted_earlier))"
    by (simp add: persisted_earlier_def ex_loop_state_def ex_state_def ex_full_def later_than_def)
  have n: "\<not> later_than (user_jobs (store ex_loop_state 0)) (user_jobs (persisted ex_loop_state))"
     "\<not> later_than (partner_jobs (store ex_loop_state 0)) (partner_jobs (persisted ex_loop_state))"
    by (simp_all add: ex_loop_state_def ex_state_def ex_full_def later_than_def)
  from beaten_when_persisted_is_earlier[OF 1 2] l
  have a: "check_if_beaten (\<lambda>s. None) 0 persisted_earlier = None" by blast
  from beaten_when_persisted_is_earlier[OF 3 4] n
  have b: "check_if_beaten (\<lambda>s. None) 0 ex_loop_state = Some (Inr ex_loop_state)" by blast
  from a b l show ?thesis by blast
qed

text \<open>
  The sentence of the specification fails: with a persisted date that is later than the
  own one (2036 against 2035) the check calls nothing and returns, and with one
  that is earlier (2034 against 2035) it calls \<^verbatim>\<open>main\<close>.
\<close>

theorem restart_on_later_persisted_counterexample:
  "user_jobs (persisted persisted_later) ! 0 > user_jobs (store persisted_later 0) ! 0
   \<and> check_if_beaten (\<lambda>s. None) 0 persisted_later = Some (Inr persisted_later)
   \<and> user_jobs (persisted persisted_earlier) ! 0 < user_jobs (store persisted_earlier 0) ! 0
   \<and> check_if_beaten (\<lambda>s. None) 0 persisted_earlier = None"
  by (simp add: persisted_later_def persisted_earlier_def ex_loop_state_def ex_state_def
      ex_full_def check_if_beaten_def jobs_of_def)

subsection \<open>The confirmation\<close>

lemma make_child_identical:
  "make_child n env full r ''identical'' ps ms 0 st =
     (let full' = (store st full)\<lparr>scalars := dict_update (scalars (store st full)) ps\<rparr>;
          st' = st\<lparr>store := (store st)(full := full'), oracle_calls := Suc (oracle_calls st)\<rparr>
      in case simulator_main env (oracle_calls st) full'
                \<lparr>ov_monte_carlo_runs = monte_carlo_runs r, ov_returns = None\<rparr> of
           Empty_dict \<Rightarrow> Some (Inr (None, st'))
         | Results r' rets \<Rightarrow> Some (Inr (Some (r', ps), st'\<lparr>self_returns := Some rets\<rparr>)))"
  by (simp add: make_child_def mutate_child_def override_dict_def raise_or_def Let_def
      split: sim_results.splits)

lemma confirm_below:
  "success_rate lv < TARGET_SUCCESS_RATE * (1005 / 1000) \<Longrightarrow>
   confirm main_rec n env nl lv st = Some (Inr (Next lv, st))"
  by (simp add: confirm_def)

lemma confirm_cancelled:
  assumes "TARGET_SUCCESS_RATE * (1005 / 1000) \<le> success_rate lv"
    and "\<forall>full ov. simulator_main env (oracle_calls st) full ov = Empty_dict"
  shows "\<exists>st'. confirm main_rec n env nl lv st = Some (Inr (Return_None, st')) \<and>
           MONTE_CARLO_RUNS st' = MAX_MONTE_RUNS \<and> oracle_calls st' = Suc (oracle_calls st)"
  using assms by (simp add: confirm_def make_child_identical after_confirm_def Let_def)

lemma confirm_worse:
  assumes "TARGET_SUCCESS_RATE * (1005 / 1000) \<le> success_rate lv"
    and "\<forall>full ov. simulator_main env (oracle_calls st) full ov = Results r rets"
    and "r \<noteq> 0" and "r < TARGET_SUCCESS_RATE"
  shows "\<exists>st'. confirm main_rec n env nl lv st = Some (Inr (Next (lv\<lparr>success_rate := r\<rparr>), st')) \<and>
           MONTE_CARLO_RUNS st' = MONTE_CARLO_RUNS st \<and> oracle_calls st' = Suc (oracle_calls st) \<and>
           prev_used_params st' = prev_used_params st"
  using assms by (simp add: confirm_def make_child_identical after_confirm_def Let_def)

lemma confirm_zero:
  assumes "TARGET_SUCCESS_RATE * (1005 / 1000) \<le> success_rate lv"
    and "\<forall>full ov. simulator_main env (oracle_calls st) full ov = Results 0 rets"
  shows "\<exists>st'. confirm main_rec n env nl lv st = Some (Inr (Return_None, st')) \<and>
           MONTE_CARLO_RUNS st' = MAX_MONTE_RUNS \<and> oracle_calls st' = Suc (oracle_calls st)"
  using assms by (simp add: confirm_def make_child_identical after_confirm_def Let_def)

text \<open>
  C5, as the code has it. The confirmation is entered exactly when the success
  rate is at least \<^verbatim>\<open>TARGET_SUCCESS_RATE * 1.005\<close>. Below that \<^verbatim>\<open>main\<close> goes on
  with the variables and the state as they were, and nothing is simulated. From
  that rate on, whatever the simulator answers, the parent is simulated once more
  with \<^verbatim>\<open>MONTE_CARLO_RUNS\<close> set to \<^verbatim>\<open>MAX_MONTE_RUNS\<close>: \<^verbatim>\<open>main\<close> returns if the
  answer is the empty dict or the rate 0.0, goes on with the answered rate if
  that is below the target, and otherwise goes into what follows a confirmed
  rate, each time in the state after that simulation. \<^verbatim>\<open>TARGET_SUCCESS_RATE\<close>
  itself is below the threshold and \<^verbatim>\<open>TARGET_SUCCESS_RATE * 1.006\<close> is not.
\<close>

theorem confirmation_threshold:
  "(success_rate lv < TARGET_SUCCESS_RATE * (1005 / 1000) \<longrightarrow>
      confirm main_rec n env nl lv st = Some (Inr (Next lv, st)))
   \<and> (TARGET_SUCCESS_RATE * (1005 / 1000) \<le> success_rate lv \<longrightarrow>
        (let full' = (store st (full_param_vals lv))
                       \<lparr>scalars := dict_update (scalars (store st (full_param_vals lv)))
                                     (parent_mute_param_vals lv)\<rparr>;
             st' = st\<lparr>MONTE_CARLO_RUNS := MAX_MONTE_RUNS,
                      store := (store st)(full_param_vals lv := full'),
                      oracle_calls := Suc (oracle_calls st)\<rparr>
         in confirm main_rec n env nl lv st =
              (case simulator_main env (oracle_calls st) full'
                      \<lparr>ov_monte_carlo_runs = monte_carlo_runs (success_rate lv),
                       ov_returns = None\<rparr> of
                 Empty_dict \<Rightarrow> Some (Inr (Return_None, st'))
               | Results r rets \<Rightarrow>
                   if r = 0 then Some (Inr (Return_None, st'\<lparr>self_returns := Some rets\<rparr>))
                   else if r < TARGET_SUCCESS_RATE
                   then Some (Inr (Next (lv\<lparr>success_rate := r\<rparr>),
                                   st'\<lparr>self_returns := Some rets,
                                      MONTE_CARLO_RUNS := MONTE_CARLO_RUNS st\<rparr>))
                   else advance main_rec env nl (lv\<lparr>success_rate := r\<rparr>)
                          (st'\<lparr>self_returns := Some rets,
                              MONTE_CARLO_RUNS := MONTE_CARLO_RUNS st\<rparr>))))
   \<and> TARGET_SUCCESS_RATE < TARGET_SUCCESS_RATE * (1005 / 1000)
   \<and> TARGET_SUCCESS_RATE * (1005 / 1000) \<le> TARGET_SUCCESS_RATE * (1006 / 1000)"
proof (intro conjI impI)
  assume "success_rate lv < TARGET_SUCCESS_RATE * (1005 / 1000)"
  then show "confirm main_rec n env nl lv st = Some (Inr (Next lv, st))"
    by (rule confirm_below)
next
  assume "TARGET_SUCCESS_RATE * (1005 / 1000) \<le> success_rate lv"
  then show "let full' = (store st (full_param_vals lv))
                       \<lparr>scalars := dict_update (scalars (store st (full_param_vals lv)))
                                     (parent_mute_param_vals lv)\<rparr>;
             st' = st\<lparr>MONTE_CARLO_RUNS := MAX_MONTE_RUNS,
                      store := (store st)(full_param_vals lv := full'),
                      oracle_calls := Suc (oracle_calls st)\<rparr>
         in confirm main_rec n env nl lv st =
              (case simulator_main env (oracle_calls st) full'
                      \<lparr>ov_monte_carlo_runs = monte_carlo_runs (success_rate lv),
                       ov_returns = None\<rparr> of
                 Empty_dict \<Rightarrow> Some (Inr (Return_None, st'))
               | Results r rets \<Rightarrow>
                   if r = 0 then Some (Inr (Return_None, st'\<lparr>self_returns := Some rets\<rparr>))
                   else if r < TARGET_SUCCESS_RATE
                   then Some (Inr (Next (lv\<lparr>success_rate := r\<rparr>),
                                   st'\<lparr>self_returns := Some rets,
                                      MONTE_CARLO_RUNS := MONTE_CARLO_RUNS st\<rparr>))
                   else advance main_rec env nl (lv\<lparr>success_rate := r\<rparr>)
                          (st'\<lparr>self_returns := Some rets,
                              MONTE_CARLO_RUNS := MONTE_CARLO_RUNS st\<rparr>))"
    by (simp add: confirm_def make_child_identical after_confirm_def Let_def
        split: sim_results.splits)
next
  show "TARGET_SUCCESS_RATE < TARGET_SUCCESS_RATE * (1005 / 1000)"
    by (simp add: TARGET_SUCCESS_RATE_def)
next
  show "TARGET_SUCCESS_RATE * (1005 / 1000) \<le> TARGET_SUCCESS_RATE * (1006 / 1000)"
    by (simp add: TARGET_SUCCESS_RATE_def)
qed

lemmas confirm_ex_defs =
  ex_vars_def ex_env_def ex_confirm_state_def ex_loop_state_def ex_state_def ex_full_def
  ex_parent_def ex_ranges_def zero_tally_def TARGET_SUCCESS_RATE_def MAX_MONTE_RUNS_def
  advance_def check_if_beaten_def jobs_of_def dict_update_def Let_def
  next_vars_def state_after_def

theorem confirmation_threshold_witness:
  "confirm (\<lambda>nl s. Some (Inr s)) 1 (ex_env good_then_better) None
       (ex_vars TARGET_SUCCESS_RATE 0) ex_confirm_state
     = Some (Inr (Next (ex_vars TARGET_SUCCESS_RATE 0), ex_confirm_state))
   \<and> next_vars (confirm (\<lambda>nl s. Some (Inr s)) 1 (ex_env good_then_better) None
        (ex_vars (TARGET_SUCCESS_RATE * (1006 / 1000)) 0) ex_confirm_state)
     = Some \<lparr>full_param_vals = 1, parent_mute_param_vals = ex_parent, success_rate = 97 / 100,
             parent_is_best_qty = 0\<rparr>
   \<and> map_option oracle_calls (state_after
        (confirm (\<lambda>nl s. Some (Inr s)) 1 (ex_env good_then_better) None
           (ex_vars (TARGET_SUCCESS_RATE * (1006 / 1000)) 0) ex_confirm_state))
     = Some 11
   \<and> map_option (\<lambda>s. (oracle_calls s, MONTE_CARLO_RUNS s)) (state_after
        (confirm (\<lambda>nl s. Some (Inr s)) 1 (ex_env good_then_quit) None
           (ex_vars (TARGET_SUCCESS_RATE * (1006 / 1000)) 0) ex_confirm_state))
     = Some (11, 5000)"
proof -
  have 1: "confirm (\<lambda>nl s. Some (Inr s)) 1 (ex_env good_then_better) None
       (ex_vars TARGET_SUCCESS_RATE 0) ex_confirm_state
     = Some (Inr (Next (ex_vars TARGET_SUCCESS_RATE 0), ex_confirm_state))"
    using confirmation_threshold[of "ex_vars TARGET_SUCCESS_RATE 0" "\<lambda>nl s. Some (Inr s)" 1
        "ex_env good_then_better" None ex_confirm_state]
    by (simp add: ex_vars_def)
  have 2: "next_vars (confirm (\<lambda>nl s. Some (Inr s)) 1 (ex_env good_then_better) None
        (ex_vars (TARGET_SUCCESS_RATE * (1006 / 1000)) 0) ex_confirm_state)
     = Some \<lparr>full_param_vals = 1, parent_mute_param_vals = ex_parent, success_rate = 97 / 100,
             parent_is_best_qty = 0\<rparr>
   \<and> map_option oracle_calls (state_after
        (confirm (\<lambda>nl s. Some (Inr s)) 1 (ex_env good_then_better) None
           (ex_vars (TARGET_SUCCESS_RATE * (1006 / 1000)) 0) ex_confirm_state))
     = Some 11"
    using confirmation_threshold[of "ex_vars (TARGET_SUCCESS_RATE * (1006 / 1000)) 0"
        "\<lambda>nl s. Some (Inr s)" 1 "ex_env good_then_better" None ex_confirm_state]
    by (simp add: confirm_ex_defs good_then_better_def)
  have 3: "map_option (\<lambda>s. (oracle_calls s, MONTE_CARLO_RUNS s)) (state_after
        (confirm (\<lambda>nl s. Some (Inr s)) 1 (ex_env good_then_quit) None
           (ex_vars (TARGET_SUCCESS_RATE * (1006 / 1000)) 0) ex_confirm_state))
     = Some (11, 5000)"
    using confirmation_threshold[of "ex_vars (TARGET_SUCCESS_RATE * (1006 / 1000)) 0"
        "\<lambda>nl s. Some (Inr s)" 1 "ex_env good_then_quit" None ex_confirm_state]
    by (simp add: confirm_ex_defs good_then_quit_def)
  from 1 2 3 show ?thesis by blast
qed

text \<open>
  The sentence of the specification fails at the threshold: a rate of exactly
  \<^verbatim>\<open>TARGET_SUCCESS_RATE * 1.005\<close> does not exceed the threshold, and the parent is
  simulated once more (the eleventh simulation), which here is cancelled and makes
  \<^verbatim>\<open>main\<close> return.
\<close>

theorem confirmation_at_threshold_counterexample:
  "\<not> (success_rate (ex_vars (TARGET_SUCCESS_RATE * (1005 / 1000)) 0)
        > TARGET_SUCCESS_RATE * (1005 / 1000))
   \<and> map_option (\<lambda>s. (oracle_calls s, MONTE_CARLO_RUNS s)) (state_after
        (confirm (main 0 (ex_env good_then_quit)) 1 (ex_env good_then_quit) None
           (ex_vars (TARGET_SUCCESS_RATE * (1005 / 1000)) 0) ex_confirm_state))
     = Some (11, 5000)
   \<and> next_vars
        (confirm (main 0 (ex_env good_then_quit)) 1 (ex_env good_then_quit) None
           (ex_vars (TARGET_SUCCESS_RATE * (1005 / 1000)) 0) ex_confirm_state)
     = None"
  by (simp add: confirm_def make_child_identical after_confirm_def Let_def state_after_def
      next_vars_def ex_vars_def ex_env_def good_then_quit_def ex_confirm_state_def
      ex_loop_state_def ex_state_def MAX_MONTE_RUNS_def)

text \<open>
  C3, as the code has it. When the simulation of the confirmation gives a rate
  below \<^verbatim>\<open>TARGET_SUCCESS_RATE\<close> (and not 0.0), \<^verbatim>\<open>main\<close> goes on with the parent
  assignment as it was and with the rate of that simulation as the success rate.
  The counter of the plateau, the history and \<^verbatim>\<open>MONTE_CARLO_RUNS\<close> are as before
  the confirmation; the dict of the full assignment has been overwritten with the
  values of the parent, one more simulation is counted and its draws are stored.
\<close>

theorem failed_confirmation_keeps_parent:
  assumes "TARGET_SUCCESS_RATE * (1005 / 1000) \<le> success_rate lv"
    and "simulator_main env (oracle_calls st)
           ((store st (full_param_vals lv))
              \<lparr>scalars := dict_update (scalars (store st (full_param_vals lv)))
                            (parent_mute_param_vals lv)\<rparr>)
           \<lparr>ov_monte_carlo_runs = monte_carlo_runs (success_rate lv), ov_returns = None\<rparr>
         = Results r rets"
    and "r \<noteq> 0" and "r < TARGET_SUCCESS_RATE"
  shows "confirm main_rec n env nl lv st =
           Some (Inr (Next (lv\<lparr>success_rate := r\<rparr>),
                 st\<lparr>store := (store st)(full_param_vals lv :=
                          (store st (full_param_vals lv))
                            \<lparr>scalars := dict_update (scalars (store st (full_param_vals lv)))
                                          (parent_mute_param_vals lv)\<rparr>),
                    oracle_calls := Suc (oracle_calls st),
                    self_returns := Some rets\<rparr>))"
  using assms
  by (simp add: confirm_def make_child_identical after_confirm_def Let_def)

theorem failed_confirmation_keeps_parent_witness:
  "next_vars (confirm (main 0 (ex_env good_then_worse)) 1 (ex_env good_then_worse) None
       ((ex_vars (96 / 100) 0)\<lparr>parent_mute_param_vals := [(''a'', 0), (''b'', 0), (''c'', 0)]\<rparr>)
       ex_confirm_state)
     = Some \<lparr>full_param_vals = 0, parent_mute_param_vals = [(''a'', 0), (''b'', 0), (''c'', 0)],
             success_rate = 90 / 100, parent_is_best_qty = 0\<rparr>
   \<and> map_option (\<lambda>s. (MONTE_CARLO_RUNS s, scalars (store s 0))) (state_after
        (confirm (main 0 (ex_env good_then_worse)) 1 (ex_env good_then_worse) None
           ((ex_vars (96 / 100) 0)\<lparr>parent_mute_param_vals := [(''a'', 0), (''b'', 0), (''c'', 0)]\<rparr>)
           ex_confirm_state))
     = Some (1000, [(''a'', 0), (''b'', 0), (''c'', 0), (''years'', 30)])
   \<and> scalars (store ex_confirm_state 0) = [(''a'', 1), (''b'', 1), (''c'', 1), (''years'', 30)]"
proof -
  let ?lv = "(ex_vars (96 / 100) 0)\<lparr>parent_mute_param_vals := [(''a'', 0), (''b'', 0), (''c'', 0)]\<rparr>"
  have 1: "TARGET_SUCCESS_RATE * (1005 / 1000) \<le> success_rate ?lv"
    by (simp add: ex_vars_def TARGET_SUCCESS_RATE_def)
  have 2: "simulator_main (ex_env good_then_worse) (oracle_calls ex_confirm_state)
           ((store ex_confirm_state (full_param_vals ?lv))
              \<lparr>scalars := dict_update (scalars (store ex_confirm_state (full_param_vals ?lv)))
                            (parent_mute_param_vals ?lv)\<rparr>)
           \<lparr>ov_monte_carlo_runs = monte_carlo_runs (success_rate ?lv), ov_returns = None\<rparr>
         = Results (90 / 100) 10"
    by (simp add: ex_env_def good_then_worse_def ex_confirm_state_def)
  have 3: "(90 / 100 :: real) \<noteq> 0" by simp
  have 4: "90 / 100 < TARGET_SUCCESS_RATE" by (simp add: TARGET_SUCCESS_RATE_def)
  from failed_confirmation_keeps_parent[OF 1 2 3 4, of "main 0 (ex_env good_then_worse)" 1 None]
  show ?thesis
    by (simp add: confirm_ex_defs)
qed

text \<open>
  The sentence of the specification fails: the confirmation is entered with the rate 0.96,
  its simulation gives 0.90, and \<^verbatim>\<open>main\<close> goes on with the rate 0.90, not with the
  prior rate 0.96.
\<close>

theorem failed_confirmation_rate_counterexample:
  "success_rate (ex_vars (96 / 100) 0) = 96 / 100
   \<and> good_then_worse (oracle_calls ex_confirm_state) = Results (90 / 100) 10
   \<and> map_option success_rate
        (next_vars (confirm (main 0 (ex_env good_then_worse)) 1 (ex_env good_then_worse) None
           (ex_vars (96 / 100) 0) ex_confirm_state))
     = Some (90 / 100)
   \<and> (90 / 100 :: real) \<noteq> 96 / 100"
  by (simp add: confirm_def make_child_identical after_confirm_def Let_def
      next_vars_def ex_vars_def ex_env_def good_then_worse_def ex_confirm_state_def
      ex_loop_state_def ex_state_def MAX_MONTE_RUNS_def TARGET_SUCCESS_RATE_def)

subsection \<open>The plateau counter\<close>

lemma bind_run_Inr:
  "bind_run m f = Some (Inr y) \<Longrightarrow> \<exists>x. m = Some (Inr x) \<and> f x = Some (Inr y)"
  by (auto simp: bind_run_def split: option.splits sum.splits)

lemma bind_run_InrE:
  assumes "bind_run m f = Some (Inr y)"
  obtains x where "m = Some (Inr x)" and "f x = Some (Inr y)"
  using bind_run_Inr[OF assms] by blast

lemma next_vars_Some: "next_vars r = Some x \<longleftrightarrow> (\<exists>s. r = Some (Inr (Next x, s)))"
  by (auto simp: next_vars_def split: option.splits sum.splits flow.splits)

lemma best_is_max:
  fixes children :: "(real \<times> 'a) list"
  assumes "sort_key (\<lambda>child. - fst child) children = best # others"
  shows "fst best = Max (fst ` set children)"
proof -
  have "sorted (map (\<lambda>child. - fst child) (sort_key (\<lambda>child. - fst child) children))"
    by (rule sorted_sort_key)
  then have "sorted (map (\<lambda>child. - fst child) (best # others))"
    by (simp only: assms)
  then have o: "\<forall>x\<in>set others. fst x \<le> fst best" by simp
  have "set (sort_key (\<lambda>child. - fst child) children) = set children" by simp
  then have e: "set children = insert best (set others)" by (simp only: assms list.set)
  have "\<forall>y\<in>fst ` set children. y \<le> fst best" using o e by auto
  moreover have "fst best \<in> fst ` set children" using e by simp
  ultimately show ?thesis by (intro Max_eqI[symmetric]) auto
qed

lemma random_restart_qty:
  "random_restart n env lv st = Some (Inr (Next lv', st')) \<Longrightarrow>
   parent_is_best_qty lv' = parent_is_best_qty lv"
proof (induction n arbitrary: lv st)
  case 0
  then show ?case by simp
next
  case (Suc n)
  show ?case
  proof (cases "success_rate lv < SUCCESS_THRESH")
    case False
    with Suc.prems show ?thesis by simp
  next
    case True
    with Suc.prems have
      "bind_run (make_child n env (full_param_vals lv) (success_rate lv) ''random'' [] 1 0 st)
         (\<lambda>(child, st').
            case child of
              None \<Rightarrow> Some (Inr (Return_None, st'))
            | Some (r, ps) \<Rightarrow>
                if r = 0 then Some (Inr (Return_None, st'))
                else random_restart n env
                       (lv\<lparr>success_rate := r, parent_mute_param_vals := ps\<rparr>) st')
       = Some (Inr (Next lv', st'))" by simp
    then obtain x where
      x: "(case x of (child, st') \<Rightarrow>
            case child of
              None \<Rightarrow> Some (Inr (Return_None, st'))
            | Some (r, ps) \<Rightarrow>
                if r = 0 then Some (Inr (Return_None, st'))
                else random_restart n env
                       (lv\<lparr>success_rate := r, parent_mute_param_vals := ps\<rparr>) st')
       = Some (Inr (Next lv', st'))" by (rule bind_run_InrE)
    obtain child st1 where "x = (child, st1)" by (cases x)
    with x have
      c: "(case child of
             None \<Rightarrow> Some (Inr (Return_None, st1))
           | Some (r, ps) \<Rightarrow>
               if r = 0 then Some (Inr (Return_None, st1))
               else random_restart n env (lv\<lparr>success_rate := r, parent_mute_param_vals := ps\<rparr>) st1)
          = Some (Inr (Next lv', st'))"
      by simp
    then obtain r ps where
      "random_restart n env (lv\<lparr>success_rate := r, parent_mute_param_vals := ps\<rparr>) st1
         = Some (Inr (Next lv', st'))"
      by (auto split: option.splits if_splits)
    from Suc.IH[OF this] show ?thesis by simp
  qed
qed

lemma advance_qty:
  "advance main_rec env nl lv st = Some (Inr (Next lv', st')) \<Longrightarrow>
   parent_is_best_qty lv' = parent_is_best_qty lv"
  unfolding advance_def Let_def
  by (elim bind_run_InrE) auto

lemma confirm_qty:
  assumes "confirm main_rec n env nl lv st = Some (Inr (Next lv', st'))"
  shows "parent_is_best_qty lv' = parent_is_best_qty lv"
proof (cases "TARGET_SUCCESS_RATE * (1005 / 1000) \<le> success_rate lv")
  case False
  with assms show ?thesis by (simp add: confirm_def)
next
  case True
  with assms have
    "bind_run (make_child n env (full_param_vals lv) (success_rate lv) ''identical''
                (parent_mute_param_vals lv) 1 0 (st\<lparr>MONTE_CARLO_RUNS := MAX_MONTE_RUNS\<rparr>))
       (after_confirm main_rec env nl lv (MONTE_CARLO_RUNS st)) = Some (Inr (Next lv', st'))"
    by (simp add: confirm_def)
  then obtain res where
    a: "after_confirm main_rec env nl lv (MONTE_CARLO_RUNS st) res = Some (Inr (Next lv', st'))"
    by (rule bind_run_InrE)
  then obtain r ps where f: "fst res = Some (r, ps)" "r \<noteq> 0"
    by (auto simp: after_confirm_def split: option.splits if_splits)
  show ?thesis
  proof (cases "r < TARGET_SUCCESS_RATE")
    case True
    with a f show ?thesis by (auto simp: after_confirm_def Let_def)
  next
    case False
    with a f have "advance main_rec env nl (lv\<lparr>success_rate := r\<rparr>)
        ((snd res)\<lparr>MONTE_CARLO_RUNS := MONTE_CARLO_RUNS st\<rparr>) = Some (Inr (Next lv', st'))"
      by (simp add: after_confirm_def Let_def)
    from advance_qty[OF this] show ?thesis by simp
  qed
qed

lemma select_parent_qty:
  assumes "select_parent n env lv children st = Some (Inr (Next lv', st'))"
  shows "children \<noteq> [] \<and>
         parent_is_best_qty lv' =
           (if success_rate lv < Max (fst ` set children) then 0
            else if ITER_LIMIT \<le> parent_is_best_qty lv + 1 then 0
            else parent_is_best_qty lv + 1)"
proof (cases "sort_key (\<lambda>child. - fst child) children")
  case Nil
  with assms show ?thesis by (simp add: select_parent_def)
next
  case (Cons best others)
  define M where "M = Max (fst ` set children)"
  have ne: "children \<noteq> []" using Cons by auto
  have mx: "fst best = M" unfolding M_def by (rule best_is_max[OF Cons])
  have "parent_is_best_qty lv' =
           (if success_rate lv < M then 0
            else if ITER_LIMIT \<le> parent_is_best_qty lv + 1 then 0
            else parent_is_best_qty lv + 1)"
  proof (cases "success_rate lv \<ge> fst best")
    case False
    with assms Cons have
      "bind_run (raise_or (update_param_count (snd best) st))
         (\<lambda>st'. Some (Inr (Next (lv\<lparr>parent_is_best_qty := 0, success_rate := fst best,
                                   parent_mute_param_vals := snd best\<rparr>), st')))
       = Some (Inr (Next lv', st'))"
      by (simp add: select_parent_def Let_def)
    then have "parent_is_best_qty lv' = 0"
      by (elim bind_run_InrE) auto
    moreover have "success_rate lv < M" using False mx by simp
    ultimately show ?thesis by simp
  next
    case True
    then have nl: "\<not> success_rate lv < M" using mx by simp
    show ?thesis
    proof (cases "ITER_LIMIT \<le> parent_is_best_qty lv + 1")
      case False
      with assms Cons True have "parent_is_best_qty lv' = parent_is_best_qty lv + 1"
        by (auto simp: select_parent_def Let_def)
      with nl False show ?thesis by simp
    next
      case lim: True
      with assms Cons True have
        "random_restart n env
           (lv\<lparr>parent_is_best_qty := parent_is_best_qty lv + 1, parent_is_best_qty := 0,
               success_rate := 0\<rparr>) st = Some (Inr (Next lv', st'))"
        by (simp add: select_parent_def Let_def)
      from random_restart_qty[OF this] have "parent_is_best_qty lv' = 0" by simp
      with nl lim show ?thesis by simp
    qed
  qed
  then show ?thesis using ne unfolding M_def by blast
qed

text \<open>
  C4, as the code has it. When a pass through the loop of \<^verbatim>\<open>main\<close> goes on to the
  next pass, the check has returned, the children have been made, and
  \<^verbatim>\<open>parent_is_best_qty\<close> is 0 if the best child's rate strictly exceeds the
  parent's, is 0 as well if it does not and the counter plus one reaches
  \<^verbatim>\<open>ITER_LIMIT\<close> (the random restart), and is the counter plus one otherwise.
  Neither the random restart nor the confirmation changes it.
\<close>

theorem plateau_counter_step:
  assumes "next_vars (generation main_rec n env nl lv st) = Some lv'"
  shows "\<exists>st1 children st2.
           check_if_beaten (main_rec None) (full_param_vals lv) st = Some (Inr st1) \<and>
           make_children n env lv [0..<OFFSPRING_QTY] [] st1 = Some (Inr (Next children, st2)) \<and>
           children \<noteq> [] \<and>
           parent_is_best_qty lv' =
             (if success_rate lv < Max (fst ` set children) then 0
              else if ITER_LIMIT \<le> parent_is_best_qty lv + 1 then 0
              else parent_is_best_qty lv + 1)"
proof -
  from assms obtain st' where
    g: "generation main_rec n env nl lv st = Some (Inr (Next lv', st'))"
    by (auto simp: next_vars_Some)
  then obtain x where
    e: "explore main_rec n env lv st = Some (Inr x)"
    and c: "(case x of (chosen, st3) \<Rightarrow>
              case chosen of Return_None \<Rightarrow> Some (Inr (Return_None, st3))
              | Next lv1 \<Rightarrow> confirm main_rec n env nl lv1 st3) = Some (Inr (Next lv', st'))"
    unfolding generation_def by (rule bind_run_InrE)
  obtain chosen st3 where x: "x = (chosen, st3)" by (cases x)
  from c x obtain lv1 where
    lv1: "chosen = Next lv1" "confirm main_rec n env nl lv1 st3 = Some (Inr (Next lv', st'))"
    by (cases chosen) auto
  from e x lv1(1) obtain st1 where
    b: "check_if_beaten (main_rec None) (full_param_vals lv) st = Some (Inr st1)"
    and m0: "bind_run (make_children n env lv [0..<OFFSPRING_QTY] [] st1)
            (\<lambda>(made, st2).
               case made of
                 Return_None \<Rightarrow> Some (Inr (Return_None, st2))
               | Next children \<Rightarrow> select_parent n env lv children st2)
          = Some (Inr (Next lv1, st3))"
    unfolding explore_def by (elim bind_run_InrE) auto
  from m0 obtain y where
    m: "make_children n env lv [0..<OFFSPRING_QTY] [] st1 = Some (Inr y)"
    and s: "(case y of (made, st2) \<Rightarrow>
               case made of
                 Return_None \<Rightarrow> Some (Inr (Return_None, st2))
               | Next children \<Rightarrow> select_parent n env lv children st2)
          = Some (Inr (Next lv1, st3))"
    by (rule bind_run_InrE)
  obtain made st2 where y: "y = (made, st2)" by (cases y)
  from s y obtain children where
    ch: "made = Next children" "select_parent n env lv children st2 = Some (Inr (Next lv1, st3))"
    by (cases made) auto
  from select_parent_qty[OF ch(2)] confirm_qty[OF lv1(2)] b m y ch(1)
  show ?thesis by auto
qed

subsection \<open>Runs of the examples\<close>

lemma offspring_idxs: "[0..<OFFSPRING_QTY] = [0, 1, 2, 3, 4, 5, 6, 7, 8, 9]"
  unfolding OFFSPRING_QTY_def by (simp add: upt_rec)

lemmas loop_defs =
  generation_def explore_def confirm_def after_confirm_def select_parent_def
  check_if_beaten_def jobs_of_def make_child_def mutate_child_def override_dict_def
  raise_or_def dict_update_def gaussian_int_def random_choice_def update_param_count_def
  zero_tally_def offspring_idxs Let_def
  TARGET_SUCCESS_RATE_def SUCCESS_THRESH_def ITER_LIMIT_def MAX_MONTE_RUNS_def

lemmas ex_defs =
  ex_env_def ex_loop_state_def ex_state_def ex_vars_def ex_ranges_def ex_parent_def
  ex_full_def ex_draws_def

theorem plateau_counter_step_witness:
  "next_vars (generation (main 0 (ex_env poor_then_fair)) 1 (ex_env poor_then_fair) None
        (ex_vars (60 / 100) 0) ex_loop_state) = Some (ex_vars (60 / 100) 1)
   \<and> (\<exists>st1 children st2.
         check_if_beaten (main 0 (ex_env poor_then_fair) None)
           (full_param_vals (ex_vars (60 / 100) 0)) ex_loop_state = Some (Inr st1) \<and>
         make_children 1 (ex_env poor_then_fair) (ex_vars (60 / 100) 0) [0..<OFFSPRING_QTY] [] st1
           = Some (Inr (Next children, st2)) \<and>
         children \<noteq> [] \<and>
         parent_is_best_qty (ex_vars (60 / 100) 1) =
           (if success_rate (ex_vars (60 / 100) 0) < Max (fst ` set children) then 0
            else if ITER_LIMIT \<le> parent_is_best_qty (ex_vars (60 / 100) 0) + 1 then 0
            else parent_is_best_qty (ex_vars (60 / 100) 0) + 1))"
proof -
  have e: "next_vars (generation (main 0 (ex_env poor_then_fair)) 1 (ex_env poor_then_fair) None
        (ex_vars (60 / 100) 0) ex_loop_state) = Some (ex_vars (60 / 100) 1)"
    by (simp add: loop_defs ex_defs poor_then_fair_def next_vars_def)
  from plateau_counter_step[OF e] e show ?thesis by blast
qed

text \<open>
  The sentence of the specification fails at the limit: with the counter at 4, a parent of
  rate 0.60 and ten children of rate 0.55, no child exceeds the parent, and the
  counter is 0 after the pass, not 5.
\<close>

theorem plateau_counter_reset_counterexample:
  "parent_is_best_qty (ex_vars (60 / 100) 4) = 4
   \<and> map_option (map fst) (next_vars
        (make_children 2 (ex_env poor_then_fair) (ex_vars (60 / 100) 4) [0..<OFFSPRING_QTY] []
           ex_loop_state))
      = Some [55 / 100, 55 / 100, 55 / 100, 55 / 100, 55 / 100,
              55 / 100, 55 / 100, 55 / 100, 55 / 100, 55 / 100]
   \<and> \<not> (55 / 100 > success_rate (ex_vars (60 / 100) 4))
   \<and> next_vars (generation (main 0 (ex_env poor_then_fair)) 2 (ex_env poor_then_fair) None
        (ex_vars (60 / 100) 4) ex_loop_state)
      = Some \<lparr>full_param_vals = 0, parent_mute_param_vals = [(''a'', 1), (''b'', 0), (''c'', 1)],
              success_rate = 70 / 100, parent_is_best_qty = 0\<rparr>"
  by (simp add: loop_defs ex_defs poor_then_fair_def next_vars_def numeral_2_eq_2)

subsection \<open>Leaving main\<close>

lemma improvement_loop_return:
  "generation main_rec n env nl lv st = Some (Inr (Return_None, st')) \<Longrightarrow>
   improvement_loop main_rec (Suc n) env nl lv st = Some (Inr st')"
  by simp

text \<open>
  C10. When a pass through the loop of \<^verbatim>\<open>main\<close> reaches the confirmation and the
  simulation of the confirmation is cancelled, \<^verbatim>\<open>main\<close> returns in a state in
  which \<^verbatim>\<open>simulator.MONTE_CARLO_RUNS\<close> is \<^verbatim>\<open>MAX_MONTE_RUNS\<close>: the saved value is
  not restored. When that simulation gives a rate below the target instead (and not
  0.0), the pass ends with the saved value restored.
\<close>

theorem cancelled_confirmation_leaves_runs_overridden:
  assumes "explore main_rec n env lv st = Some (Inr (Next lv1, st1))"
    and "TARGET_SUCCESS_RATE * (1005 / 1000) \<le> success_rate lv1"
  shows "((\<forall>full ov. simulator_main env (oracle_calls st1) full ov = Empty_dict) \<longrightarrow>
            map_option MONTE_CARLO_RUNS
              (returned (improvement_loop main_rec (Suc n) env nl lv st)) = Some MAX_MONTE_RUNS)
       \<and> ((\<forall>full ov. simulator_main env (oracle_calls st1) full ov = Results r rets) \<and>
          r \<noteq> 0 \<and> r < TARGET_SUCCESS_RATE \<longrightarrow>
            map_option MONTE_CARLO_RUNS (state_after (generation main_rec n env nl lv st))
              = Some (MONTE_CARLO_RUNS st1))"
proof (intro conjI impI)
  assume q: "\<forall>full ov. simulator_main env (oracle_calls st1) full ov = Empty_dict"
  from confirm_cancelled[OF assms(2) q, of main_rec n nl] obtain st' where
    c: "confirm main_rec n env nl lv1 st1 = Some (Inr (Return_None, st'))"
       "MONTE_CARLO_RUNS st' = MAX_MONTE_RUNS"
    by blast
  have "generation main_rec n env nl lv st = Some (Inr (Return_None, st'))"
    using assms(1) c(1) by (simp add: generation_def)
  from improvement_loop_return[OF this] c(2)
  show "map_option MONTE_CARLO_RUNS
          (returned (improvement_loop main_rec (Suc n) env nl lv st)) = Some MAX_MONTE_RUNS"
    by (simp add: returned_def)
next
  assume w: "(\<forall>full ov. simulator_main env (oracle_calls st1) full ov = Results r rets) \<and>
          r \<noteq> 0 \<and> r < TARGET_SUCCESS_RATE"
  then have w1: "\<forall>full ov. simulator_main env (oracle_calls st1) full ov = Results r rets"
    and w2: "r \<noteq> 0" and w3: "r < TARGET_SUCCESS_RATE" by blast+
  from confirm_worse[OF assms(2) w1 w2 w3, of main_rec n nl] obtain st' where
    c: "confirm main_rec n env nl lv1 st1 = Some (Inr (Next (lv1\<lparr>success_rate := r\<rparr>), st'))"
       "MONTE_CARLO_RUNS st' = MONTE_CARLO_RUNS st1"
    by blast
  have "generation main_rec n env nl lv st = Some (Inr (Next (lv1\<lparr>success_rate := r\<rparr>), st'))"
    using assms(1) c(1) by (simp add: generation_def)
  with c(2)
  show "map_option MONTE_CARLO_RUNS (state_after (generation main_rec n env nl lv st))
          = Some (MONTE_CARLO_RUNS st1)"
    by (simp add: state_after_def)
qed

theorem cancelled_confirmation_leaves_runs_overridden_witness:
  "MONTE_CARLO_RUNS ex_loop_state = 1000
   \<and> map_option MONTE_CARLO_RUNS (returned
        (improvement_loop (main 0 (ex_env good_then_quit)) (Suc 1) (ex_env good_then_quit) None
           (ex_vars 0 0) ex_loop_state))
      = Some 5000"
proof -
  have "\<exists>st1. explore (main 0 (ex_env good_then_quit)) 1 (ex_env good_then_quit) (ex_vars 0 0)
            ex_loop_state
          = Some (Inr (Next \<lparr>full_param_vals = 0,
                             parent_mute_param_vals = [(''a'', 0), (''b'', 0), (''c'', 0)],
                             success_rate = 96 / 100, parent_is_best_qty = 0\<rparr>, st1))
        \<and> oracle_calls st1 = 10"
    by (simp add: loop_defs ex_defs good_then_quit_def)
  then obtain st1 where
    e: "explore (main 0 (ex_env good_then_quit)) 1 (ex_env good_then_quit) (ex_vars 0 0)
            ex_loop_state
          = Some (Inr (Next \<lparr>full_param_vals = 0,
                             parent_mute_param_vals = [(''a'', 0), (''b'', 0), (''c'', 0)],
                             success_rate = 96 / 100, parent_is_best_qty = 0\<rparr>, st1))"
    and k: "oracle_calls st1 = 10"
    by blast
  have g: "TARGET_SUCCESS_RATE * (1005 / 1000)
             \<le> success_rate \<lparr>full_param_vals = 0,
                             parent_mute_param_vals = [(''a'', 0), (''b'', 0), (''c'', 0 :: int)],
                             success_rate = 96 / 100, parent_is_best_qty = 0\<rparr>"
    by (simp add: TARGET_SUCCESS_RATE_def)
  have q: "\<forall>full ov. simulator_main (ex_env good_then_quit) (oracle_calls st1) full ov = Empty_dict"
    by (simp add: k ex_env_def good_then_quit_def)
  from cancelled_confirmation_leaves_runs_overridden[OF e g, of None] q
  have "map_option MONTE_CARLO_RUNS (returned
        (improvement_loop (main 0 (ex_env good_then_quit)) (Suc 1) (ex_env good_then_quit) None
           (ex_vars 0 0) ex_loop_state)) = Some MAX_MONTE_RUNS"
    by blast
  then show ?thesis by (simp add: MAX_MONTE_RUNS_def ex_loop_state_def ex_state_def)
qed

text \<open>
  The same on \<^verbatim>\<open>main\<close> as a whole: ten children of rate 0.96, the eleventh
  simulation cancelled; \<^verbatim>\<open>main\<close> returns with 5000 runs where 1000 were set.
\<close>

lemma main_returns_with_runs_overridden:
  "MONTE_CARLO_RUNS ex_state = 1000
   \<and> map_option (\<lambda>s. (oracle_calls s, MONTE_CARLO_RUNS s))
        (returned (main 3 (ex_env good_then_quit) None ex_state)) = Some (11, 5000)"
  by (simp add: numeral_3_eq_3 main_body_def ranges_of_def SEED_def ex_details_def
      loop_defs ex_defs good_then_quit_def returned_def)

text \<open>
  C2 fails on the code. \<^verbatim>\<open>main\<close> tests \<^verbatim>\<open>not children[-1][0]\<close> and
  \<^verbatim>\<open>not success_rate\<close> where its comments say ``if cancelled'', and these tests
  hold for the rate 0.0 as they do for \<^verbatim>\<open>None\<close>. With a simulator that is never
  cancelled and gives the rate 0.0, \<^verbatim>\<open>main\<close> returns after the first child.
\<close>

theorem main_returns_on_zero_rate:
  "(\<forall>k. always_zero k = Results 0 7)
   \<and> map_option oracle_calls (returned (main 3 (ex_env always_zero) None ex_state)) = Some 1"
  by (simp add: numeral_3_eq_3 main_body_def ranges_of_def SEED_def ex_details_def
      loop_defs ex_defs always_zero_def returned_def)

text \<open>
  The two loops that mutate at random differ at the rate 0.0: the one before the
  improvement loop tests the type of the rate and goes on, the one inside the
  improvement loop tests \<^verbatim>\<open>not success_rate\<close> and makes \<^verbatim>\<open>main\<close> return.
\<close>

lemma random_loops_differ_at_zero_rate:
  assumes "make_child n env (full_param_vals lv) (success_rate lv) ''random'' [] 1 0 st
             = Some (Inr (Some (0, ps), st'))"
    and "success_rate lv < SUCCESS_THRESH"
  shows "random_restart (Suc n) env lv st = Some (Inr (Return_None, st'))"
    and "random_seed (Suc n) env lv st
           = random_seed n env (lv\<lparr>success_rate := 0, parent_mute_param_vals := ps\<rparr>) st'"
  using assms by simp_all

end
